theory Spec2Isabelle
  imports Main "HOL-Library.Multiset" "HOL-Library.Word" "HOL-Library.Signed_Division" "HOL-Library.Sublist"
begin

section \<open>Data model of examples/batch-processing/main.go\<close>

text \<open>
  Go's \<^verbatim>\<open>error\<close> interface: an error value made by \<^verbatim>\<open>errors.New\<close>, the two context
  errors, or an error wrapped by \<^verbatim>\<open>fmt.Errorf(prefix + "%w", err)\<close>. A possibly-nil
  \<^verbatim>\<open>error\<close> is a \<open>go_error option\<close>.
\<close>

datatype go_error =
    ErrorString string
  | ContextCanceled
  | DeadlineExceeded
  | Wrapped string go_error

text \<open>
  \<^verbatim>\<open>time.Duration\<close> is an \<^verbatim>\<open>int64\<close> of nanoseconds (addition wraps, division truncates
  towards zero). \<^verbatim>\<open>time.Time\<close> is kept abstract as an integer time stamp, 0 being the
  zero value. Go's \<^verbatim>\<open>int\<close> counters are bounded by \<^verbatim>\<open>len(jobs)\<close> and never overflow;
  they are \<open>int\<close>.
\<close>

type_synonym duration = "64 word"
type_synonym gotime = int

text \<open>config.Config and config.LLMConfig, as declared in the config package.\<close>

record LLMConfig =
  BaseURL :: string
  APIKey :: string
  Model :: string

record Config =
  DefaultProvider :: string
  RequestTimeoutSeconds :: int
  LLMs :: "string \<rightharpoonup> LLMConfig"

text \<open>
  BatchJob (main.go:20). The values of \<^verbatim>\<open>map[string]interface{}\<close> are opaque to the
  engine, which only passes the map on; they are strings here.
\<close>

record BatchJob =
  ID :: string
  Prompt :: string
  Metadata :: "string \<rightharpoonup> string"

text \<open>BatchResult (main.go:27).\<close>

record BatchResult =
  Job :: BatchJob
  Response :: string
  Duration :: duration
  Error :: "go_error option"
  Worker :: int

text \<open>BatchStatistics (main.go:36).\<close>

record BatchStatistics =
  TotalJobs :: int
  CompletedJobs :: int
  FailedJobs :: int
  TotalDuration :: duration
  AverageDuration :: duration
  WorkerCount :: int
  StartTime :: gotime
  EndTime :: gotime

text \<open>BatchProcessor (main.go:48); the mutex carries no data.\<close>

record BatchProcessor =
  config :: Config
  workerCount :: int
  stats :: BatchStatistics

text \<open>The zero value of BatchStatistics, as a Go composite literal leaves unnamed fields.\<close>

definition zeroStatistics :: BatchStatistics where
  "zeroStatistics =
     \<lparr>TotalJobs = 0, CompletedJobs = 0, FailedJobs = 0, TotalDuration = 0,
      AverageDuration = 0, WorkerCount = 0, StartTime = 0, EndTime = 0\<rparr>"

text \<open>NewBatchProcessor (main.go:56).\<close>

definition NewBatchProcessor :: "Config \<Rightarrow> int \<Rightarrow> BatchProcessor" where
  "NewBatchProcessor cfg wc =
     (let wc' = (if wc \<le> 0 then 1 else wc)
      in \<lparr>config = cfg, workerCount = wc',
          stats = zeroStatistics\<lparr>WorkerCount := wc'\<rparr>\<rparr>)"

text \<open>The read accessors (main.go:71-96) and Close (main.go:220), which returns nil.\<close>

definition GetWorkerCount :: "BatchProcessor \<Rightarrow> int" where
  "GetWorkerCount bp = workerCount bp"

definition GetProcessedCount :: "BatchProcessor \<Rightarrow> int" where
  "GetProcessedCount bp = CompletedJobs (stats bp)"

definition GetErrorCount :: "BatchProcessor \<Rightarrow> int" where
  "GetErrorCount bp = FailedJobs (stats bp)"

definition GetStatistics :: "BatchProcessor \<Rightarrow> BatchStatistics" where
  "GetStatistics bp = stats bp"

definition Close :: "BatchProcessor \<Rightarrow> go_error option \<times> BatchProcessor" where
  "Close bp = (None, bp)"

section \<open>The job source\<close>

text \<open>\<^verbatim>\<open>%d\<close> of a non-negative int: its decimal digits, most significant first.\<close>

definition digit_char :: "nat \<Rightarrow> char" where
  "digit_char d = char_of (48 + d)"

fun decimal :: "nat \<Rightarrow> string" where
  "decimal n = (if n < 10 then [digit_char n] else decimal (n div 10) @ [digit_char (n mod 10)])"

declare decimal.simps [simp del]

text \<open>\<^verbatim>\<open>fmt.Sprintf("job-%d", i+1)\<close> for the 0-based loop index \<open>i\<close> (main.go:230).\<close>

definition job_id :: "nat \<Rightarrow> string" where
  "job_id i = ''job-'' @ decimal (i + 1)"

text \<open>
  createJobsFromPrompts (main.go:226): the loop \<^verbatim>\<open>for i, prompt := range prompts\<close> that
  fills \<^verbatim>\<open>jobs[i]\<close>, as a recursion carrying the index.
\<close>

fun jobsFrom :: "nat \<Rightarrow> string list \<Rightarrow> BatchJob list" where
  "jobsFrom i [] = []"
| "jobsFrom i (p # ps) =
     \<lparr>ID = job_id i, Prompt = p, Metadata = Map.empty\<rparr> # jobsFrom (Suc i) ps"

definition createJobsFromPrompts :: "string list \<Rightarrow> BatchJob list" where
  "createJobsFromPrompts prompts = jobsFrom 0 prompts"

text \<open>
  What createJobsFromFile (main.go:239) gets from the file system: \<^verbatim>\<open>os.Open\<close> fails, or
  the scanner yields lines and then stops, at the end of the file (\<^verbatim>\<open>scanner.Err()\<close> nil)
  or on a read error.
\<close>

datatype file_source =
    OpenFails go_error
  | Scanned "string list" "go_error option"

text \<open>
  \<^verbatim>\<open>strings.TrimSpace\<close> belongs to the Go library, and is a parameter \<open>trim\<close> of the
  model. asciiTrimSpace is its behaviour on ASCII text, for concrete inputs.
\<close>

definition asciiSpace :: "char \<Rightarrow> bool" where
  "asciiSpace c = (c \<in> set [CHR 0x09, CHR 0x0A, CHR 0x0B, CHR 0x0C, CHR 0x0D, CHR '' ''])"

definition asciiTrimSpace :: "string \<Rightarrow> string" where
  "asciiTrimSpace s = rev (dropWhile asciiSpace (rev (dropWhile asciiSpace s)))"

text \<open>The scan loop (main.go:249-255): the lines kept, trimmed, in order.\<close>

fun scanPrompts :: "(string \<Rightarrow> string) \<Rightarrow> string list \<Rightarrow> string list" where
  "scanPrompts trim [] = []"
| "scanPrompts trim (l # ls) =
     (let line = trim l
      in if line \<noteq> [] \<and> \<not> prefix ''#'' line then line # scanPrompts trim ls
         else scanPrompts trim ls)"

definition createJobsFromFile ::
  "(string \<Rightarrow> string) \<Rightarrow> file_source \<Rightarrow> go_error + BatchJob list" where
  "createJobsFromFile trim src =
     (case src of
        OpenFails err \<Rightarrow> Inl (Wrapped ''failed to open file: '' err)
      | Scanned ls None \<Rightarrow> Inr (createJobsFromPrompts (scanPrompts trim ls))
      | Scanned ls (Some err) \<Rightarrow> Inl (Wrapped ''error reading file: '' err))"

text \<open>The lines of the prompt file of TestCreateJobsFromFile.\<close>

definition demo_lines :: "string list" where
  "demo_lines =
     [''First prompt'', ''Second prompt'', ''Third prompt'', '''', ''# Comment line'', ''  '',
      ''Fourth prompt'']"

section \<open>ProcessJobs as a system of goroutines\<close>

text \<open>
  What the engine calls and does not implement: \<^verbatim>\<open>xollm.GetClient(bp.config, false)\<close>,
  called once by each worker (the second argument is the 0-based index of the calling
  worker; \<open>None\<close> is a client, \<open>Some err\<close> the failure), and \<^verbatim>\<open>client.Generate(ctx, prompt)\<close>,
  which sees the context's error at the moment it returns and is assumed to return.
\<close>

record env =
  getClient :: "Config \<Rightarrow> nat \<Rightarrow> go_error option"
  generate :: "go_error option \<Rightarrow> string \<Rightarrow> string \<times> go_error option"

text \<open>
  Where a worker goroutine stands (main.go:169-217): before GetClient (173); in the drain
  loop after GetClient failed, at the receive (176) or at the send (177); at the outer
  select (189); inside Generate (196); at the inner select with its result (207);
  returned.
\<close>

datatype worker =
    WStart
  | WDrain go_error
  | WDrainSend go_error BatchResult
  | WSelect
  | WGenerate BatchJob
  | WSend BatchResult
  | WExit

text \<open>
  The goroutine that called ProcessJobs: in the collecting loop (143), past the
  finalisation (158-163), or returned with its error value (165).
\<close>

datatype mainpc = MCollect | MFinalized | MReturned "go_error option"

text \<open>
  One run. Both channels are buffered queues of capacity \<^verbatim>\<open>len(jobs)\<close>. \<open>dispatcher\<close> is
  the rest of the job list the sending goroutine (125-134) still has to send, \<open>None\<close> when
  that goroutine does not run; \<open>closer\<close> says that the goroutine of lines 138-141 runs;
  the wait group is the number of workers that have not returned. \<open>panicked\<close> records a
  send on a closed result channel.
\<close>

record run =
  proc :: BatchProcessor
  ctxErr :: "go_error option"
  chanCap :: nat
  jobChan :: "BatchJob list"
  jobChanClosed :: bool
  resultChan :: "BatchResult list"
  resultChanClosed :: bool
  dispatcher :: "BatchJob list option"
  workers :: "worker list"
  closer :: bool
  results :: "BatchResult list"
  mainPC :: mainpc
  panicked :: bool

text \<open>
  ProcessJobs up to the start of its goroutines (main.go:99-141). An empty job list
  returns at line 101. The goroutines are taken as started together: one that is started
  later behaves as one that has not moved yet. \<open>ctx\<close> is \<^verbatim>\<open>ctx.Err()\<close> at the call, \<open>now\<close>
  the value of \<^verbatim>\<open>time.Now()\<close> at line 109.
\<close>

definition ProcessJobs_start ::
  "BatchProcessor \<Rightarrow> go_error option \<Rightarrow> BatchJob list \<Rightarrow> gotime \<Rightarrow> run" where
  "ProcessJobs_start bp ctx jobs now =
     (if length jobs = 0 then
        \<lparr>proc = bp, ctxErr = ctx, chanCap = 0, jobChan = [], jobChanClosed = False,
         resultChan = [], resultChanClosed = False, dispatcher = None, workers = [],
         closer = False, results = [], mainPC = MReturned None, panicked = False\<rparr>
      else
        \<lparr>proc = bp\<lparr>stats := zeroStatistics\<lparr>TotalJobs := int (length jobs),
                    WorkerCount := workerCount bp, StartTime := now\<rparr>\<rparr>,
         ctxErr = ctx, chanCap = length jobs, jobChan = [], jobChanClosed = False,
         resultChan = [], resultChanClosed = False, dispatcher = Some jobs,
         workers = replicate (nat (workerCount bp)) WStart,
         closer = True, results = [], mainPC = MCollect, panicked = False\<rparr>)"

text \<open>
  The moves of the system. Each is one atomic action of one goroutine, or the context
  becoming done; a list of them is a schedule.
\<close>

datatype action =
    CtxCancel go_error
  | DispatcherSend
  | DispatcherCtxDone
  | DispatcherEnd
  | WorkerGetClient nat
  | WorkerRecv nat
  | WorkerCtxDone nat
  | WorkerGenerate nat duration
  | WorkerSend nat
  | CloserClose
  | CollectorRecv
  | Finalize gotime
  | Return

text \<open>The context is cancelled or its deadline passes; its error never changes after.\<close>

definition ctx_cancel :: "go_error \<Rightarrow> run \<Rightarrow> run option" where
  "ctx_cancel e s = (if ctxErr s = None then Some (s\<lparr>ctxErr := Some e\<rparr>) else None)"

text \<open>
  The dispatcher (main.go:125-134): the select sends the next job when the buffer has
  room (129), or returns when the context is done (130); after the last job the loop
  ends. Every return runs the deferred \<^verbatim>\<open>close(jobChan)\<close>.
\<close>

definition dispatcher_send :: "run \<Rightarrow> run option" where
  "dispatcher_send s =
     (case dispatcher s of
        Some (j # rest) \<Rightarrow>
          if length (jobChan s) < chanCap s
          then Some (s\<lparr>jobChan := jobChan s @ [j], dispatcher := Some rest\<rparr>)
          else None
      | _ \<Rightarrow> None)"

definition dispatcher_ctx_done :: "run \<Rightarrow> run option" where
  "dispatcher_ctx_done s =
     (case dispatcher s of
        Some (j # rest) \<Rightarrow>
          if ctxErr s \<noteq> None
          then Some (s\<lparr>dispatcher := None, jobChanClosed := True\<rparr>)
          else None
      | _ \<Rightarrow> None)"

definition dispatcher_end :: "run \<Rightarrow> run option" where
  "dispatcher_end s =
     (case dispatcher s of
        Some [] \<Rightarrow> Some (s\<lparr>dispatcher := None, jobChanClosed := True\<rparr>)
      | _ \<Rightarrow> None)"

text \<open>The result a worker sends when it has no client (main.go:177-181).\<close>

definition setupFailure :: "nat \<Rightarrow> go_error \<Rightarrow> BatchJob \<Rightarrow> BatchResult" where
  "setupFailure i err job =
     \<lparr>Job = job, Response = [], Duration = 0,
      Error = Some (Wrapped ''failed to create LLM client: '' err), Worker = int i + 1\<rparr>"

text \<open>The result a worker builds from a Generate call (main.go:199-205).\<close>

definition generated :: "env \<Rightarrow> go_error option \<Rightarrow> nat \<Rightarrow> duration \<Rightarrow> BatchJob \<Rightarrow> BatchResult" where
  "generated e ctx i d job =
     \<lparr>Job = job, Response = fst (generate e ctx (Prompt job)), Duration = d,
      Error = snd (generate e ctx (Prompt job)), Worker = int i + 1\<rparr>"

definition set_worker :: "nat \<Rightarrow> worker \<Rightarrow> run \<Rightarrow> run" where
  "set_worker i w s = s\<lparr>workers := (workers s)[i := w]\<rparr>"

text \<open>A send on the result channel: a panic when it is closed, blocked when it is full.\<close>

definition send_result :: "nat \<Rightarrow> worker \<Rightarrow> BatchResult \<Rightarrow> run \<Rightarrow> run option" where
  "send_result i w r s =
     (if resultChanClosed s then Some (s\<lparr>panicked := True\<rparr>)
      else if length (resultChan s) < chanCap s
      then Some (set_worker i w (s\<lparr>resultChan := resultChan s @ [r]\<rparr>))
      else None)"

text \<open>Worker \<open>i\<close> (0-based; its workerID is \<open>i + 1\<close>), main.go:169-217.\<close>

definition worker_get_client :: "env \<Rightarrow> nat \<Rightarrow> run \<Rightarrow> run option" where
  "worker_get_client e i s =
     (case workers s ! i of
        WStart \<Rightarrow>
          (case getClient e (config (proc s)) i of
             Some err \<Rightarrow> Some (set_worker i (WDrain err) s)
           | None \<Rightarrow> Some (set_worker i WSelect s))
      | _ \<Rightarrow> None)"

text \<open>
  A receive from the job channel: the oldest buffered job; on an empty closed channel the
  range loop ends (176), respectively \<open>ok\<close> is false (191), and the worker returns; on an
  empty open channel the receive blocks.
\<close>

definition worker_recv :: "nat \<Rightarrow> run \<Rightarrow> run option" where
  "worker_recv i s =
     (case workers s ! i of
        WDrain err \<Rightarrow>
          (case jobChan s of
             j # js \<Rightarrow> Some (set_worker i (WDrainSend err (setupFailure i err j)) (s\<lparr>jobChan := js\<rparr>))
           | [] \<Rightarrow> if jobChanClosed s then Some (set_worker i WExit s) else None)
      | WSelect \<Rightarrow>
          (case jobChan s of
             j # js \<Rightarrow> Some (set_worker i (WGenerate j) (s\<lparr>jobChan := js\<rparr>))
           | [] \<Rightarrow> if jobChanClosed s then Some (set_worker i WExit s) else None)
      | _ \<Rightarrow> None)"

text \<open>The \<^verbatim>\<open>case <-ctx.Done()\<close> of the outer (213) and of the inner select (209).\<close>

definition worker_ctx_done :: "nat \<Rightarrow> run \<Rightarrow> run option" where
  "worker_ctx_done i s =
     (case workers s ! i of
        WSelect \<Rightarrow> if ctxErr s \<noteq> None then Some (set_worker i WExit s) else None
      | WSend r \<Rightarrow> if ctxErr s \<noteq> None then Some (set_worker i WExit s) else None
      | _ \<Rightarrow> None)"

text \<open>Generate returns after the measured time \<open>d\<close> (195-205).\<close>

definition worker_generate :: "env \<Rightarrow> nat \<Rightarrow> duration \<Rightarrow> run \<Rightarrow> run option" where
  "worker_generate e i d s =
     (case workers s ! i of
        WGenerate j \<Rightarrow> Some (set_worker i (WSend (generated e (ctxErr s) i d j)) s)
      | _ \<Rightarrow> None)"

definition worker_send :: "nat \<Rightarrow> run \<Rightarrow> run option" where
  "worker_send i s =
     (case workers s ! i of
        WDrainSend err r \<Rightarrow> send_result i (WDrain err) r s
      | WSend r \<Rightarrow> send_result i WSelect r s
      | _ \<Rightarrow> None)"

text \<open>\<^verbatim>\<open>wg.Wait(); close(resultChan)\<close> (138-141): every worker has returned.\<close>

fun exited :: "worker \<Rightarrow> bool" where
  "exited WExit = True"
| "exited _ = False"

definition closer_close :: "run \<Rightarrow> run option" where
  "closer_close s =
     (if closer s \<and> list_all exited (workers s)
      then Some (s\<lparr>resultChanClosed := True, closer := False\<rparr>)
      else None)"

text \<open>The statistics update for one result, under the mutex (147-154).\<close>

definition record_result :: "BatchResult \<Rightarrow> BatchStatistics \<Rightarrow> BatchStatistics" where
  "record_result r st =
     (if Error r = None then st\<lparr>CompletedJobs := CompletedJobs st + 1\<rparr>
      else st\<lparr>FailedJobs := FailedJobs st + 1\<rparr>)
     \<lparr>TotalDuration := TotalDuration st + Duration r\<rparr>"

text \<open>One round of \<^verbatim>\<open>for result := range resultChan\<close> (143-155).\<close>

definition collector_recv :: "run \<Rightarrow> run option" where
  "collector_recv s =
     (if mainPC s = MCollect then
        (case resultChan s of
           r # rs \<Rightarrow>
             Some (s\<lparr>resultChan := rs, results := results s @ [r],
                     proc := (proc s)\<lparr>stats := record_result r (stats (proc s))\<rparr>\<rparr>)
         | [] \<Rightarrow> None)
      else None)"

text \<open>Go's \<^verbatim>\<open>/\<close> on int64: the quotient truncated towards zero.\<close>

definition div_int64 :: "64 word \<Rightarrow> 64 word \<Rightarrow> 64 word" where
  "div_int64 a b = word_of_int (sint a sdiv sint b)"

text \<open>The statistics at the end (158-163).\<close>

definition finalize_stats :: "gotime \<Rightarrow> BatchStatistics \<Rightarrow> BatchStatistics" where
  "finalize_stats now st =
     (let st' = st\<lparr>EndTime := now\<rparr>
      in if TotalJobs st' > 0
         then st'\<lparr>AverageDuration := div_int64 (TotalDuration st') (word_of_int (TotalJobs st'))\<rparr>
         else st')"

text \<open>The range loop ends when the result channel is closed and empty.\<close>

definition finalize :: "gotime \<Rightarrow> run \<Rightarrow> run option" where
  "finalize now s =
     (if mainPC s = MCollect \<and> resultChan s = [] \<and> resultChanClosed s
      then Some (s\<lparr>proc := (proc s)\<lparr>stats := finalize_stats now (stats (proc s))\<rparr>,
                   mainPC := MFinalized\<rparr>)
      else None)"

text \<open>\<^verbatim>\<open>return results, ctx.Err()\<close> (165).\<close>

definition return_results :: "run \<Rightarrow> run option" where
  "return_results s =
     (if mainPC s = MFinalized then Some (s\<lparr>mainPC := MReturned (ctxErr s)\<rparr>) else None)"

text \<open>One move; \<open>None\<close> when the goroutine cannot make it. A panic ends the program.\<close>

definition step :: "env \<Rightarrow> action \<Rightarrow> run \<Rightarrow> run option" where
  "step e a s =
     (if panicked s then None
      else case a of
        CtxCancel err \<Rightarrow> ctx_cancel err s
      | DispatcherSend \<Rightarrow> dispatcher_send s
      | DispatcherCtxDone \<Rightarrow> dispatcher_ctx_done s
      | DispatcherEnd \<Rightarrow> dispatcher_end s
      | WorkerGetClient i \<Rightarrow> if i < length (workers s) then worker_get_client e i s else None
      | WorkerRecv i \<Rightarrow> if i < length (workers s) then worker_recv i s else None
      | WorkerCtxDone i \<Rightarrow> if i < length (workers s) then worker_ctx_done i s else None
      | WorkerGenerate i d \<Rightarrow> if i < length (workers s) then worker_generate e i d s else None
      | WorkerSend i \<Rightarrow> if i < length (workers s) then worker_send i s else None
      | CloserClose \<Rightarrow> closer_close s
      | CollectorRecv \<Rightarrow> collector_recv s
      | Finalize now \<Rightarrow> finalize now s
      | Return \<Rightarrow> return_results s)"

text \<open>Running a schedule.\<close>

fun exec :: "env \<Rightarrow> action list \<Rightarrow> run \<Rightarrow> run option" where
  "exec e [] s = Some s"
| "exec e (a # as) s = (case step e a s of None \<Rightarrow> None | Some s' \<Rightarrow> exec e as s')"

text \<open>
  The states of a call \<^verbatim>\<open>bp.ProcessJobs(ctx, jobs)\<close>: those some schedule reaches. What
  the call returns, once \<open>mainPC\<close> is \<open>MReturned err\<close>, is \<open>(results, err)\<close>.
\<close>

definition reaches :: "env \<Rightarrow> BatchProcessor \<Rightarrow> go_error option \<Rightarrow> BatchJob list \<Rightarrow> gotime \<Rightarrow> action list \<Rightarrow> run \<Rightarrow> bool" where
  "reaches e bp ctx jobs now sched s = (exec e sched (ProcessJobs_start bp ctx jobs now) = Some s)"

section \<open>Where the jobs of a run are\<close>

text \<open>The job a worker has taken from the job channel and not yet passed on.\<close>

fun holding :: "worker \<Rightarrow> BatchJob list" where
  "holding (WDrainSend err r) = [Job r]"
| "holding (WGenerate j) = [j]"
| "holding (WSend r) = [Job r]"
| "holding _ = []"

definition inflight :: "worker list \<Rightarrow> BatchJob list" where
  "inflight ws = concat (map holding ws)"

definition pending :: "run \<Rightarrow> BatchJob list" where
  "pending s = (case dispatcher s of Some rest \<Rightarrow> rest | None \<Rightarrow> [])"

text \<open>
  Every job the run still knows: not yet sent, in the job channel, with a worker, in the
  result channel, or collected.
\<close>

definition accounted :: "run \<Rightarrow> BatchJob multiset" where
  "accounted s =
     mset (pending s) + mset (jobChan s) + mset (inflight (workers s))
     + mset (map Job (resultChan s)) + mset (map Job (results s))"

text \<open>
  How the goroutines of a run with jobs stand to each other: nothing has panicked; the job
  channel is closed exactly when the dispatcher has returned; the closing goroutine runs
  until it has closed the result channel, which it does after every worker has returned;
  the collecting loop ends on a closed and empty result channel; and while the context is
  not done, a worker has returned only from a closed and empty job channel.
\<close>

definition run_inv :: "run \<Rightarrow> bool" where
  "run_inv s \<longleftrightarrow>
     \<not> panicked s
     \<and> (jobChanClosed s \<longleftrightarrow> dispatcher s = None)
     \<and> (closer s \<longleftrightarrow> \<not> resultChanClosed s)
     \<and> (resultChanClosed s \<longrightarrow> list_all exited (workers s))
     \<and> (mainPC s \<noteq> MCollect \<longrightarrow> resultChanClosed s \<and> resultChan s = [])
     \<and> (ctxErr s = None \<longrightarrow> list_ex exited (workers s) \<longrightarrow> jobChanClosed s \<and> jobChan s = [])"

section \<open>What a worker does along a schedule\<close>

text \<open>The 0-based index of the worker a result names.\<close>

definition worker_index :: "BatchResult \<Rightarrow> nat" where
  "worker_index r = nat (Worker r - 1)"

text \<open>
  A result is what its worker makes of its job: the setup failure when the factory gave
  that worker no client, and otherwise what Generate returns for the job's prompt under a
  context that is not done.
\<close>

definition origin_ok :: "env \<Rightarrow> Config \<Rightarrow> BatchResult \<Rightarrow> bool" where
  "origin_ok e cfg r =
     (case getClient e cfg (worker_index r) of
        Some err \<Rightarrow> r = setupFailure (worker_index r) err (Job r)
      | None \<Rightarrow> r = generated e None (worker_index r) (Duration r) (Job r))"

text \<open>A worker's place in its code agrees with what the factory gave it.\<close>

fun consistent :: "env \<Rightarrow> Config \<Rightarrow> nat \<Rightarrow> worker \<Rightarrow> bool" where
  "consistent e cfg i WStart = True"
| "consistent e cfg i (WDrain err) = (getClient e cfg i = Some err)"
| "consistent e cfg i (WDrainSend err r) =
     (getClient e cfg i = Some err \<and> worker_index r = i \<and> origin_ok e cfg r)"
| "consistent e cfg i WSelect = (getClient e cfg i = None)"
| "consistent e cfg i (WGenerate j) = (getClient e cfg i = None)"
| "consistent e cfg i (WSend r) =
     (getClient e cfg i = None \<and> worker_index r = i \<and> origin_ok e cfg r)"
| "consistent e cfg i WExit = True"



fun in_hand :: "worker \<Rightarrow> BatchResult list" where
  "in_hand (WDrainSend err r) = [r]"
| "in_hand (WSend r) = [r]"
| "in_hand _ = []"





section \<open>A run without what the generator says\<close>

text \<open>
  A result without its response and error; a worker and a state with all results so, and
  without the statistics. What is left of a state is all that decides which moves can be
  made.
\<close>

definition blank :: "BatchResult \<Rightarrow> BatchResult" where
  "blank r = r\<lparr>Response := [], Error := None\<rparr>"

fun blank_worker :: "worker \<Rightarrow> worker" where
  "blank_worker (WDrainSend err r) = WDrainSend err (blank r)"
| "blank_worker (WSend r) = WSend (blank r)"
| "blank_worker w = w"

definition outline :: "run \<Rightarrow> run" where
  "outline s =
     s\<lparr>proc := (proc s)\<lparr>stats := zeroStatistics\<rparr>,
       resultChan := map blank (resultChan s),
       workers := map blank_worker (workers s),
       results := map blank (results s)\<rparr>"

section \<open>A bound on the moves of a run\<close>

text \<open>
  Every move uses up some of this: a job costs less the further it has come, a worker less
  once it has its client and nothing once it has returned.
\<close>

fun weight :: "worker \<Rightarrow> nat" where
  "weight WStart = 2"
| "weight (WDrain err) = 1"
| "weight (WDrainSend err r) = 3"
| "weight WSelect = 1"
| "weight (WGenerate j) = 4"
| "weight (WSend r) = 3"
| "weight WExit = 0"

definition fuel :: "run \<Rightarrow> nat" where
  "fuel s =
     (if ctxErr s = None then 1 else 0)
     + (case dispatcher s of None \<Rightarrow> 0 | Some rest \<Rightarrow> 1 + 5 * length rest)
     + 4 * length (jobChan s)
     + sum_list (map weight (workers s))
     + length (resultChan s)
     + (if closer s then 1 else 0)
     + (case mainPC s of MCollect \<Rightarrow> 2 | MFinalized \<Rightarrow> 1 | MReturned err \<Rightarrow> 0)
     + (if panicked s then 0 else 1)"

section \<open>Using a processor\<close>

text \<open>
  What a call \<^verbatim>\<open>bp.ProcessJobs(ctx, jobs)\<close> returns under a schedule: the collected results
  and the error, once the calling goroutine has returned; \<open>None\<close> while it has not, or when
  the schedule cannot run.
\<close>

definition ProcessJobs ::
  "env \<Rightarrow> BatchProcessor \<Rightarrow> go_error option \<Rightarrow> BatchJob list \<Rightarrow> gotime \<Rightarrow> action list
   \<Rightarrow> (BatchResult list \<times> go_error option) option" where
  "ProcessJobs e bp ctx jobs now sched =
     (case exec e sched (ProcessJobs_start bp ctx jobs now) of
        None \<Rightarrow> None
      | Some s \<Rightarrow> (case mainPC s of MReturned err \<Rightarrow> Some (results s, err) | _ \<Rightarrow> None))"

text \<open>The snapshot GetStatistics gives after a schedule of a call, so also during the run.\<close>

definition statistics_after ::
  "env \<Rightarrow> BatchProcessor \<Rightarrow> go_error option \<Rightarrow> BatchJob list \<Rightarrow> gotime \<Rightarrow> action list
   \<Rightarrow> BatchStatistics option" where
  "statistics_after e bp ctx jobs now sched =
     (case exec e sched (ProcessJobs_start bp ctx jobs now) of
        None \<Rightarrow> None
      | Some s \<Rightarrow> Some (GetStatistics (proc s)))"

text \<open>
  The calls that change a processor value: ProcessJobs, taken up to its return, and Close.
  \<open>lifecycle bp calls\<close> is the processor after the calls, one after the other.
\<close>

datatype call =
    CallProcessJobs env "go_error option" "BatchJob list" gotime "action list"
  | CallClose

fun lifecycle :: "BatchProcessor \<Rightarrow> call list \<Rightarrow> BatchProcessor option" where
  "lifecycle bp [] = Some bp"
| "lifecycle bp (CallProcessJobs e ctx jobs now sched # cs) =
     (case exec e sched (ProcessJobs_start bp ctx jobs now) of
        None \<Rightarrow> None
      | Some s \<Rightarrow> (case mainPC s of MReturned err \<Rightarrow> lifecycle (proc s) cs | _ \<Rightarrow> None))"
| "lifecycle bp (CallClose # cs) = lifecycle (snd (Close bp)) cs"

text \<open>
  A run whose context is never cancelled: the context is not done at the call and no
  move of the schedule makes it done.
\<close>

fun is_cancel :: "action \<Rightarrow> bool" where
  "is_cancel (CtxCancel err) = True"
| "is_cancel _ = False"

definition never_cancelled :: "go_error option \<Rightarrow> action list \<Rightarrow> bool" where
  "never_cancelled ctx sched \<longleftrightarrow> ctx = None \<and> \<not> list_ex is_cancel sched"

section \<open>A small run\<close>

text \<open>
  A configuration, a generator that fails on the prompt \<^verbatim>\<open>bad\<close> and gives the context's
  error once the context is done, and a factory that always succeeds, or always fails.
\<close>

definition demo_config :: Config where
  "demo_config = \<lparr>DefaultProvider = ''ollama'', RequestTimeoutSeconds = 30, LLMs = Map.empty\<rparr>"

definition demo_generate :: "go_error option \<Rightarrow> string \<Rightarrow> string \<times> go_error option" where
  "demo_generate ctx p =
     (case ctx of
        Some err \<Rightarrow> ([], Some err)
      | None \<Rightarrow> if p = ''bad'' then ([], Some (ErrorString ''mock error''))
                else (''ok: '' @ p, None))"

definition demo_env :: env where
  "demo_env = \<lparr>getClient = (\<lambda>cfg i. None), generate = demo_generate\<rparr>"

definition demo_env_nofail :: env where
  "demo_env_nofail = \<lparr>getClient = (\<lambda>cfg i. None), generate = (\<lambda>ctx p. (''ok: '' @ p, None))\<rparr>"


definition demo_jobs :: "BatchJob list" where
  "demo_jobs = createJobsFromPrompts [''good'', ''bad'']"

text \<open>One worker takes both jobs in turn; the run ends with both results collected.\<close>

definition demo_sched :: "action list" where
  "demo_sched =
     [WorkerGetClient 0, DispatcherSend, DispatcherSend, WorkerRecv 0, WorkerGenerate 0 5,
      DispatcherEnd, WorkerSend 0, CollectorRecv, WorkerRecv 0, WorkerGenerate 0 7,
      WorkerSend 0, WorkerRecv 0, CloserClose, CollectorRecv, Finalize 100, Return]"

text \<open>The same run up to the moment the first result has been collected.\<close>

definition demo_sched_midrun :: "action list" where
  "demo_sched_midrun = take 8 demo_sched"

text \<open>What that run returns, and the processor it leaves.\<close>

definition demo_results :: "BatchResult list" where
  "demo_results =
     [\<lparr>Job = \<lparr>ID = ''job-1'', Prompt = ''good'', Metadata = Map.empty\<rparr>,
       Response = ''ok: good'', Duration = 5, Error = None, Worker = 1\<rparr>,
      \<lparr>Job = \<lparr>ID = ''job-2'', Prompt = ''bad'', Metadata = Map.empty\<rparr>,
       Response = [], Duration = 7, Error = Some (ErrorString ''mock error''), Worker = 1\<rparr>]"

text \<open>The results of the same schedule when the generator fails on no prompt.\<close>

definition demo_results_nofail :: "BatchResult list" where
  "demo_results_nofail =
     [\<lparr>Job = \<lparr>ID = ''job-1'', Prompt = ''good'', Metadata = Map.empty\<rparr>,
       Response = ''ok: good'', Duration = 5, Error = None, Worker = 1\<rparr>,
      \<lparr>Job = \<lparr>ID = ''job-2'', Prompt = ''bad'', Metadata = Map.empty\<rparr>,
       Response = ''ok: bad'', Duration = 7, Error = None, Worker = 1\<rparr>]"

definition demo_statistics :: BatchStatistics where
  "demo_statistics =
     \<lparr>TotalJobs = 2, CompletedJobs = 1, FailedJobs = 1, TotalDuration = 12,
      AverageDuration = 6, WorkerCount = 1, StartTime = 10, EndTime = 100\<rparr>"

definition demo_used :: BatchProcessor where
  "demo_used = \<lparr>config = demo_config, workerCount = 1, stats = demo_statistics\<rparr>"

definition demo_final_state :: run where
  "demo_final_state =
     \<lparr>proc = demo_used, ctxErr = None, chanCap = 2, jobChan = [], jobChanClosed = True,
      resultChan = [], resultChanClosed = True, dispatcher = None, workers = [WExit],
      closer = False, results = demo_results, mainPC = MReturned None, panicked = False\<rparr>"

text \<open>
  A second run on that processor, at the moment its first result has been collected, and
  an empty run on it whose context has since passed its deadline.
\<close>

definition demo_midrun_statistics :: BatchStatistics where
  "demo_midrun_statistics =
     \<lparr>TotalJobs = 2, CompletedJobs = 1, FailedJobs = 0, TotalDuration = 5,
      AverageDuration = 0, WorkerCount = 1, StartTime = 20, EndTime = 0\<rparr>"

definition demo_midrun_state :: run where
  "demo_midrun_state =
     \<lparr>proc = demo_used\<lparr>stats := demo_midrun_statistics\<rparr>,
      ctxErr = None, chanCap = 2,
      jobChan = [\<lparr>ID = ''job-2'', Prompt = ''bad'', Metadata = Map.empty\<rparr>],
      jobChanClosed = True, resultChan = [], resultChanClosed = False, dispatcher = None,
      workers = [WSelect], closer = True, results = [hd demo_results], mainPC = MCollect,
      panicked = False\<rparr>"

definition demo_empty_state :: run where
  "demo_empty_state =
     \<lparr>proc = demo_used, ctxErr = Some DeadlineExceeded, chanCap = 0, jobChan = [],
      jobChanClosed = False, resultChan = [], resultChanClosed = False, dispatcher = None,
      workers = [], closer = False, results = [], mainPC = MReturned None,
      panicked = False\<rparr>"




text \<open>
  One worker with a client: the context is cancelled when the first job has been answered
  and the second is not yet sent; the dispatcher and the worker see it and return.
\<close>

definition demo_sched_cancelled :: "action list" where
  "demo_sched_cancelled =
     [WorkerGetClient 0, DispatcherSend, WorkerRecv 0, WorkerGenerate 0 5,
      CtxCancel ContextCanceled, DispatcherCtxDone, WorkerSend 0, CollectorRecv,
      WorkerCtxDone 0, CloserClose, Finalize 100, Return]"

definition demo_cancelled_results :: "BatchResult list" where
  "demo_cancelled_results =
     [\<lparr>Job = \<lparr>ID = ''job-1'', Prompt = ''good'', Metadata = Map.empty\<rparr>,
       Response = ''ok: good'', Duration = 5, Error = None, Worker = 1\<rparr>]"

definition demo_cancelled_state :: run where
  "demo_cancelled_state =
     \<lparr>proc = \<lparr>config = demo_config, workerCount = 1,
               stats = \<lparr>TotalJobs = 2, CompletedJobs = 1, FailedJobs = 0, TotalDuration = 5,
                        AverageDuration = 2, WorkerCount = 1, StartTime = 10,
                        EndTime = 100\<rparr>\<rparr>,
      ctxErr = Some ContextCanceled, chanCap = 2, jobChan = [], jobChanClosed = True,
      resultChan = [], resultChanClosed = True, dispatcher = None, workers = [WExit],
      closer = False, results = demo_cancelled_results,
      mainPC = MReturned (Some ContextCanceled), panicked = False\<rparr>"

text \<open>The same call under a context whose deadline has passed before the call.\<close>

definition demo_sched_expired :: "action list" where
  "demo_sched_expired =
     [WorkerGetClient 0, DispatcherCtxDone, WorkerCtxDone 0, CloserClose, Finalize 100, Return]"

definition demo_expired_state :: run where
  "demo_expired_state =
     \<lparr>proc = \<lparr>config = demo_config, workerCount = 1,
               stats = \<lparr>TotalJobs = 2, CompletedJobs = 0, FailedJobs = 0, TotalDuration = 0,
                        AverageDuration = 0, WorkerCount = 1, StartTime = 10,
                        EndTime = 100\<rparr>\<rparr>,
      ctxErr = Some DeadlineExceeded, chanCap = 2, jobChan = [], jobChanClosed = True,
      resultChan = [], resultChanClosed = True, dispatcher = None, workers = [WExit],
      closer = False, results = [],
      mainPC = MReturned (Some DeadlineExceeded), panicked = False\<rparr>"

section \<open>Properties\<close>

subsection \<open>The moves of a run, case by case\<close>

lemma step_not_panicked: "step e a s = Some s' \<Longrightarrow> \<not> panicked s"
  by (auto simp: step_def split: if_splits)

lemma stepE [consumes 1, case_names Cancel DSend DCtxDone DEnd GetClientFail GetClientOk
    DrainRecv DrainEnd Recv RecvEnd SelectDone SendDone Generate DrainSend Send SendPanic
    Closer Collect Finalize Return]:
  assumes "step e a s = Some s'"
  obtains
    (Cancel) err where "a = CtxCancel err" "ctxErr s = None" "s' = s\<lparr>ctxErr := Some err\<rparr>"
  | (DSend) j rest where "a = DispatcherSend" "dispatcher s = Some (j # rest)"
      "length (jobChan s) < chanCap s"
      "s' = s\<lparr>jobChan := jobChan s @ [j], dispatcher := Some rest\<rparr>"
  | (DCtxDone) j rest where "a = DispatcherCtxDone" "dispatcher s = Some (j # rest)"
      "ctxErr s \<noteq> None" "s' = s\<lparr>dispatcher := None, jobChanClosed := True\<rparr>"
  | (DEnd) "a = DispatcherEnd" "dispatcher s = Some []"
      "s' = s\<lparr>dispatcher := None, jobChanClosed := True\<rparr>"
  | (GetClientFail) i err where "a = WorkerGetClient i" "i < length (workers s)"
      "workers s ! i = WStart" "getClient e (config (proc s)) i = Some err"
      "s' = set_worker i (WDrain err) s"
  | (GetClientOk) i where "a = WorkerGetClient i" "i < length (workers s)"
      "workers s ! i = WStart" "getClient e (config (proc s)) i = None"
      "s' = set_worker i WSelect s"
  | (DrainRecv) i err j js where "a = WorkerRecv i" "i < length (workers s)"
      "workers s ! i = WDrain err" "jobChan s = j # js"
      "s' = set_worker i (WDrainSend err (setupFailure i err j)) (s\<lparr>jobChan := js\<rparr>)"
  | (DrainEnd) i err where "a = WorkerRecv i" "i < length (workers s)"
      "workers s ! i = WDrain err" "jobChan s = []" "jobChanClosed s"
      "s' = set_worker i WExit s"
  | (Recv) i j js where "a = WorkerRecv i" "i < length (workers s)"
      "workers s ! i = WSelect" "jobChan s = j # js"
      "s' = set_worker i (WGenerate j) (s\<lparr>jobChan := js\<rparr>)"
  | (RecvEnd) i where "a = WorkerRecv i" "i < length (workers s)"
      "workers s ! i = WSelect" "jobChan s = []" "jobChanClosed s"
      "s' = set_worker i WExit s"
  | (SelectDone) i where "a = WorkerCtxDone i" "i < length (workers s)"
      "workers s ! i = WSelect" "ctxErr s \<noteq> None" "s' = set_worker i WExit s"
  | (SendDone) i r where "a = WorkerCtxDone i" "i < length (workers s)"
      "workers s ! i = WSend r" "ctxErr s \<noteq> None" "s' = set_worker i WExit s"
  | (Generate) i d j where "a = WorkerGenerate i d" "i < length (workers s)"
      "workers s ! i = WGenerate j"
      "s' = set_worker i (WSend (generated e (ctxErr s) i d j)) s"
  | (DrainSend) i err r where "a = WorkerSend i" "i < length (workers s)"
      "workers s ! i = WDrainSend err r" "\<not> resultChanClosed s"
      "length (resultChan s) < chanCap s"
      "s' = set_worker i (WDrain err) (s\<lparr>resultChan := resultChan s @ [r]\<rparr>)"
  | (Send) i r where "a = WorkerSend i" "i < length (workers s)"
      "workers s ! i = WSend r" "\<not> resultChanClosed s"
      "length (resultChan s) < chanCap s"
      "s' = set_worker i WSelect (s\<lparr>resultChan := resultChan s @ [r]\<rparr>)"
  | (SendPanic) i where "a = WorkerSend i" "i < length (workers s)"
      "\<not> exited (workers s ! i)" "in_hand (workers s ! i) \<noteq> []" "resultChanClosed s"
      "s' = s\<lparr>panicked := True\<rparr>"
  | (Closer) "a = CloserClose" "closer s" "list_all exited (workers s)"
      "s' = s\<lparr>resultChanClosed := True, closer := False\<rparr>"
  | (Collect) r rs where "a = CollectorRecv" "mainPC s = MCollect" "resultChan s = r # rs"
      "s' = s\<lparr>resultChan := rs, results := results s @ [r],
                proc := (proc s)\<lparr>stats := record_result r (stats (proc s))\<rparr>\<rparr>"
  | (Finalize) now where "a = Finalize now" "mainPC s = MCollect" "resultChan s = []"
      "resultChanClosed s"
      "s' = s\<lparr>proc := (proc s)\<lparr>stats := finalize_stats now (stats (proc s))\<rparr>,
                mainPC := MFinalized\<rparr>"
  | (Return) "a = Return" "mainPC s = MFinalized" "s' = s\<lparr>mainPC := MReturned (ctxErr s)\<rparr>"
proof (cases a)
  case (CtxCancel err)
  with assms have "ctxErr s = None \<and> s' = s\<lparr>ctxErr := Some err\<rparr>"
    by (auto simp: step_def ctx_cancel_def split: if_splits)
  with CtxCancel show ?thesis using Cancel by blast
next
  case DispatcherSend
  with assms have "\<exists>j rest. dispatcher s = Some (j # rest) \<and> length (jobChan s) < chanCap s
      \<and> s' = s\<lparr>jobChan := jobChan s @ [j], dispatcher := Some rest\<rparr>"
    by (auto simp: step_def dispatcher_send_def split: if_splits option.splits list.splits)
  with DispatcherSend show ?thesis using DSend by blast
next
  case DispatcherCtxDone
  with assms have "\<exists>j rest. dispatcher s = Some (j # rest) \<and> ctxErr s \<noteq> None
      \<and> s' = s\<lparr>dispatcher := None, jobChanClosed := True\<rparr>"
    by (auto simp: step_def dispatcher_ctx_done_def split: if_splits option.splits list.splits)
  with DispatcherCtxDone show ?thesis using DCtxDone by blast
next
  case DispatcherEnd
  with assms have "dispatcher s = Some [] \<and> s' = s\<lparr>dispatcher := None, jobChanClosed := True\<rparr>"
    by (auto simp: step_def dispatcher_end_def split: if_splits option.splits list.splits)
  with DispatcherEnd show ?thesis using DEnd by blast
next
  case (WorkerGetClient i)
  with assms have "i < length (workers s) \<and> workers s ! i = WStart
      \<and> ((\<exists>err. getClient e (config (proc s)) i = Some err \<and> s' = set_worker i (WDrain err) s)
         \<or> (getClient e (config (proc s)) i = None \<and> s' = set_worker i WSelect s))"
    by (auto simp: step_def worker_get_client_def split: if_splits option.splits worker.splits)
  with WorkerGetClient show ?thesis using GetClientFail GetClientOk by blast
next
  case (WorkerRecv i)
  with assms have "i < length (workers s)
      \<and> ((\<exists>err j js. workers s ! i = WDrain err \<and> jobChan s = j # js
             \<and> s' = set_worker i (WDrainSend err (setupFailure i err j)) (s\<lparr>jobChan := js\<rparr>))
         \<or> (\<exists>err. workers s ! i = WDrain err \<and> jobChan s = [] \<and> jobChanClosed s
             \<and> s' = set_worker i WExit s)
         \<or> (\<exists>j js. workers s ! i = WSelect \<and> jobChan s = j # js
             \<and> s' = set_worker i (WGenerate j) (s\<lparr>jobChan := js\<rparr>))
         \<or> (workers s ! i = WSelect \<and> jobChan s = [] \<and> jobChanClosed s
             \<and> s' = set_worker i WExit s))"
    by (auto simp: step_def worker_recv_def split: if_splits list.splits worker.splits)
  with WorkerRecv show ?thesis using DrainRecv DrainEnd Recv RecvEnd by blast
next
  case (WorkerCtxDone i)
  with assms have "i < length (workers s) \<and> ctxErr s \<noteq> None \<and> s' = set_worker i WExit s
      \<and> (workers s ! i = WSelect \<or> (\<exists>r. workers s ! i = WSend r))"
    by (auto simp: step_def worker_ctx_done_def split: if_splits worker.splits)
  with WorkerCtxDone show ?thesis using SelectDone SendDone by blast
next
  case (WorkerGenerate i d)
  with assms have "i < length (workers s) \<and> (\<exists>j. workers s ! i = WGenerate j
      \<and> s' = set_worker i (WSend (generated e (ctxErr s) i d j)) s)"
    by (auto simp: step_def worker_generate_def split: if_splits worker.splits)
  with WorkerGenerate show ?thesis using Generate by blast
next
  case (WorkerSend i)
  with assms have "i < length (workers s)
      \<and> ((\<exists>err r. workers s ! i = WDrainSend err r \<and> \<not> resultChanClosed s
             \<and> length (resultChan s) < chanCap s
             \<and> s' = set_worker i (WDrain err) (s\<lparr>resultChan := resultChan s @ [r]\<rparr>))
         \<or> (\<exists>r. workers s ! i = WSend r \<and> \<not> resultChanClosed s
             \<and> length (resultChan s) < chanCap s
             \<and> s' = set_worker i WSelect (s\<lparr>resultChan := resultChan s @ [r]\<rparr>))
         \<or> (\<not> exited (workers s ! i) \<and> in_hand (workers s ! i) \<noteq> []
             \<and> resultChanClosed s \<and> s' = s\<lparr>panicked := True\<rparr>))"
    by (auto simp: step_def worker_send_def send_result_def split: if_splits worker.splits)
  with WorkerSend show ?thesis using DrainSend Send SendPanic by blast
next
  case CloserClose
  with assms have "closer s \<and> list_all exited (workers s)
      \<and> s' = s\<lparr>resultChanClosed := True, closer := False\<rparr>"
    by (auto simp: step_def closer_close_def split: if_splits)
  with CloserClose show ?thesis using Closer by blast
next
  case CollectorRecv
  with assms have "mainPC s = MCollect \<and> (\<exists>r rs. resultChan s = r # rs
      \<and> s' = s\<lparr>resultChan := rs, results := results s @ [r],
                proc := (proc s)\<lparr>stats := record_result r (stats (proc s))\<rparr>\<rparr>)"
    by (auto simp: step_def collector_recv_def split: if_splits list.splits)
  with CollectorRecv show ?thesis using Collect by blast
next
  case (Finalize now)
  with assms have "mainPC s = MCollect \<and> resultChan s = [] \<and> resultChanClosed s
      \<and> s' = s\<lparr>proc := (proc s)\<lparr>stats := finalize_stats now (stats (proc s))\<rparr>,
                mainPC := MFinalized\<rparr>"
    by (auto simp: step_def finalize_def split: if_splits)
  with Finalize show ?thesis using that(19) by blast
next
  case Return
  with assms have "mainPC s = MFinalized \<and> s' = s\<lparr>mainPC := MReturned (ctxErr s)\<rparr>"
    by (auto simp: step_def return_results_def split: if_splits)
  with Return show ?thesis using that(20) by blast
qed

subsection \<open>Schedules and the accounting of jobs\<close>

lemma exec_invariant:
  assumes "exec e sched s0 = Some s" and "P s0"
    and "\<And>a s s'. P s \<Longrightarrow> step e a s = Some s' \<Longrightarrow> P s'"
  shows "P s"
  using assms(1,2)
proof (induction sched arbitrary: s0)
  case Nil
  then show ?case by simp
next
  case (Cons a as)
  then show ?case by (auto split: option.splits intro: assms(3))
qed

lemma mset_inflight_update:
  "i < length ws \<Longrightarrow>
   mset (inflight (ws[i := w])) + mset (holding (ws ! i)) = mset (inflight ws) + mset (holding w)"
proof (induction ws arbitrary: i)
  case Nil
  then show ?case by simp
next
  case (Cons x xs)
  then show ?case by (cases i) (auto simp: inflight_def)
qed

lemma mset_inflight_update_idle:
  "i < length ws \<Longrightarrow> holding (ws ! i) = [] \<Longrightarrow>
   mset (inflight (ws[i := w])) = mset (inflight ws) + mset (holding w)"
  using mset_inflight_update [of i ws w] by simp

lemma mset_inflight_update_release:
  "i < length ws \<Longrightarrow> holding (ws ! i) = [j] \<Longrightarrow> holding w = [] \<Longrightarrow>
   mset (inflight ws) = add_mset j (mset (inflight (ws[i := w])))"
  using mset_inflight_update [of i ws w] by simp

lemma mset_inflight_update_keep:
  "i < length ws \<Longrightarrow> holding (ws ! i) = holding w \<Longrightarrow>
   mset (inflight (ws[i := w])) = mset (inflight ws)"
  using mset_inflight_update [of i ws w] by simp

text \<open>No move adds a job; only a move that needs a done context loses one.\<close>

lemma step_accounted:
  assumes "step e a s = Some s'"
  shows "accounted s' \<subseteq># accounted s \<and> (ctxErr s' = None \<longrightarrow> accounted s' = accounted s \<and> ctxErr s = None)"
  using assms
proof (cases rule: stepE)
  case (SendDone i r)
  then show ?thesis
    using mset_inflight_update_release [of i "workers s" "Job r" WExit]
    by (simp add: accounted_def pending_def set_worker_def)
next
  case (DrainSend i err r)
  then show ?thesis
    using mset_inflight_update_release [of i "workers s" "Job r" "WDrain err"]
    by (simp add: accounted_def pending_def set_worker_def)
next
  case (Send i r)
  then show ?thesis
    using mset_inflight_update_release [of i "workers s" "Job r" WSelect]
    by (simp add: accounted_def pending_def set_worker_def)
qed (simp_all add: accounted_def pending_def set_worker_def setupFailure_def generated_def
       mset_inflight_update_idle mset_inflight_update_release mset_inflight_update_keep)

subsection \<open>The goroutines stay in step\<close>

lemma list_all_nthD: "list_all P ws \<Longrightarrow> i < length ws \<Longrightarrow> P (ws ! i)"
  by (simp add: list_all_length)

lemma list_ex_updateD: "list_ex P (ws[i := w]) \<Longrightarrow> P w \<or> list_ex P ws"
  using set_update_subset_insert [of ws i w] by (auto simp: list_ex_iff)

lemma start_run_inv: "jobs \<noteq> [] \<Longrightarrow> run_inv (ProcessJobs_start bp ctx jobs now)"
  by (simp add: run_inv_def ProcessJobs_start_def list_ex_iff)

lemma step_run_inv:
  assumes "step e a s = Some s'" and "run_inv s"
  shows "run_inv s'"
  using assms
proof (cases rule: stepE)
qed (auto simp: run_inv_def set_worker_def dest: list_all_nthD list_ex_updateD)

lemma reaches_run_inv:
  assumes "jobs \<noteq> []" and "reaches e bp ctx jobs now sched s"
  shows "run_inv s"
  using assms(2) unfolding reaches_def
proof (rule exec_invariant)
  show "run_inv (ProcessJobs_start bp ctx jobs now)" using assms(1) by (rule start_run_inv)
qed (rule step_run_inv)

lemma step_frame:
  assumes "step e a s = Some s'"
  shows "length (workers s') = length (workers s) \<and> workerCount (proc s') = workerCount (proc s)
    \<and> config (proc s') = config (proc s) \<and> chanCap s' = chanCap s"
  using assms
proof (cases rule: stepE)
qed (simp_all add: set_worker_def)

lemma reaches_frame:
  assumes "reaches e bp ctx jobs now sched s"
  shows "workerCount (proc s) = workerCount bp \<and> config (proc s) = config bp
     \<and> chanCap s = length jobs
     \<and> length (workers s) = (if jobs = [] then 0 else nat (workerCount bp))"
  using assms unfolding reaches_def
  by (rule exec_invariant) (auto simp: ProcessJobs_start_def dest: step_frame)

lemma reaches_accounted:
  assumes "reaches e bp ctx jobs now sched s"
  shows "accounted s \<subseteq># mset jobs \<and> (ctxErr s = None \<longrightarrow> accounted s = mset jobs)"
  using assms unfolding reaches_def
proof (rule exec_invariant)
  show "accounted (ProcessJobs_start bp ctx jobs now) \<subseteq># mset jobs \<and>
    (ctxErr (ProcessJobs_start bp ctx jobs now) = None \<longrightarrow>
     accounted (ProcessJobs_start bp ctx jobs now) = mset jobs)"
    by (simp add: ProcessJobs_start_def accounted_def pending_def inflight_def)
next
  fix a s s'
  assume "accounted s \<subseteq># mset jobs \<and> (ctxErr s = None \<longrightarrow> accounted s = mset jobs)"
    and "step e a s = Some s'"
  then show "accounted s' \<subseteq># mset jobs \<and> (ctxErr s' = None \<longrightarrow> accounted s' = mset jobs)"
    using step_accounted [of e a s s'] by (auto intro: subset_mset.order_trans)
qed

lemma inflight_exited: "list_all exited ws \<Longrightarrow> inflight ws = []"
proof (induction ws)
  case Nil
  then show ?case by (simp add: inflight_def)
next
  case (Cons w ws)
  then show ?case by (cases w) (simp_all add: inflight_def)
qed

lemma list_all_ex: "list_all P ws \<Longrightarrow> ws \<noteq> [] \<Longrightarrow> list_ex P ws"
  by (cases ws) simp_all

text \<open>When the collecting loop has ended in a run whose context is not done, every job has its result.\<close>

lemma collected_all:
  assumes nonempty: "jobs \<noteq> []" and W: "0 < workerCount bp"
    and run: "reaches e bp ctx jobs now sched s"
    and fin: "mainPC s \<noteq> MCollect" and live: "ctxErr s = None"
  shows "mset (map Job (results s)) = mset jobs"
proof -
  have inv: "run_inv s" using nonempty run by (rule reaches_run_inv)
  have ws: "workers s \<noteq> []" using reaches_frame [OF run] nonempty W by auto
  from inv fin have closed: "resultChanClosed s" and rc: "resultChan s = []"
    by (simp_all add: run_inv_def)
  with inv have ex: "list_all exited (workers s)" by (simp add: run_inv_def)
  from ex ws have "list_ex exited (workers s)" by (rule list_all_ex)
  with inv live have jcc: "jobChanClosed s" and jc: "jobChan s = []" by (auto simp: run_inv_def)
  from inv jcc have "dispatcher s = None" by (auto simp: run_inv_def)
  then have pe: "pending s = []" by (simp add: pending_def)
  have "accounted s = mset jobs" using reaches_accounted [OF run] live by simp
  then show ?thesis using pe jc rc inflight_exited [OF ex] by (simp add: accounted_def)
qed

lemma lifecycle_workerCount:
  "lifecycle bp calls = Some bp' \<Longrightarrow> workerCount bp' = workerCount bp \<and> config bp' = config bp"
proof (induction bp calls rule: lifecycle.induct)
  case (1 bp)
  then show ?case by simp
next
  case (2 bp e ctx jobs now sched cs)
  then show ?case
    using reaches_frame [of e bp ctx jobs now sched]
    by (auto simp: reaches_def split: option.splits mainpc.splits)
next
  case (3 bp cs)
  then show ?case by (simp add: Close_def)
qed

lemma NewBatchProcessor_workerCount:
  "workerCount (NewBatchProcessor cfg wc) = (if wc \<le> 0 then 1 else wc)"
  by (simp add: NewBatchProcessor_def)

subsection \<open>The small run, evaluated\<close>

lemmas run_defs = ProcessJobs_start_def step_def ctx_cancel_def dispatcher_send_def
  dispatcher_ctx_done_def dispatcher_end_def worker_get_client_def worker_recv_def
  worker_ctx_done_def worker_generate_def worker_send_def send_result_def set_worker_def
  closer_close_def collector_recv_def finalize_def return_results_def record_result_def
  finalize_stats_def zeroStatistics_def generated_def setupFailure_def div_int64_def

lemma job_id_0: "job_id 0 = ''job-1''"
  by code_simp

lemma job_id_1: "job_id (Suc 0) = ''job-2''"
  by code_simp

lemmas demo_defs = demo_env_def demo_generate_def demo_jobs_def demo_sched_def
  demo_config_def NewBatchProcessor_def createJobsFromPrompts_def job_id_0 job_id_1

lemma demo_exec:
  "exec demo_env demo_sched (ProcessJobs_start (NewBatchProcessor demo_config 0) None demo_jobs 10)
   = Some demo_final_state"
  by (simp add: run_defs demo_defs demo_used_def demo_results_def demo_statistics_def
      demo_final_state_def)

lemma demo_run:
  "ProcessJobs demo_env (NewBatchProcessor demo_config 0) None demo_jobs 10 demo_sched
   = Some (demo_results, None)"
  by (simp add: ProcessJobs_def demo_exec demo_final_state_def)

lemma demo_never_cancelled: "never_cancelled None demo_sched"
  by (simp add: never_cancelled_def demo_sched_def)

lemma demo_jobs_nonempty: "demo_jobs \<noteq> []"
  by (simp add: demo_jobs_def createJobsFromPrompts_def)

subsection \<open>Runs that are never cancelled\<close>

lemma step_ctxErr:
  assumes "step e a s = Some s'"
  shows "ctxErr s' = ctxErr s \<or> (is_cancel a \<and> ctxErr s = None)"
  using assms
proof (cases rule: stepE)
qed (simp_all add: set_worker_def)

lemma exec_never_cancelled:
  "exec e sched s0 = Some s \<Longrightarrow> ctxErr s0 = None \<Longrightarrow> \<not> list_ex is_cancel sched
   \<Longrightarrow> ctxErr s = None"
proof (induction sched arbitrary: s0)
  case Nil
  then show ?case by simp
next
  case (Cons a as)
  then show ?case using step_ctxErr [of e a s0] by (auto split: option.splits)
qed

lemma never_cancelled_ctxErr:
  assumes "never_cancelled ctx sched" and "reaches e bp ctx jobs now sched s"
  shows "ctxErr s = None"
proof -
  have "ctxErr (ProcessJobs_start bp ctx jobs now) = None"
    using assms(1) by (simp add: never_cancelled_def ProcessJobs_start_def)
  with assms show ?thesis
    unfolding reaches_def never_cancelled_def by (blast intro: exec_never_cancelled)
qed

lemma ProcessJobs_SomeD:
  assumes "ProcessJobs e bp ctx jobs now sched = Some (rs, err)"
  obtains s where "reaches e bp ctx jobs now sched s" "mainPC s = MReturned err" "results s = rs"
  using assms unfolding ProcessJobs_def reaches_def
  by (auto split: option.splits mainpc.splits)

subsection \<open>The worker count\<close>

lemma demo_lifecycle:
  "lifecycle (NewBatchProcessor demo_config 0)
     [CallProcessJobs demo_env None demo_jobs 10 demo_sched, CallClose] = Some demo_used"
  by (simp add: demo_exec Close_def demo_final_state_def)

lemma demo_midrun_exec:
  "exec demo_env demo_sched_midrun (ProcessJobs_start demo_used None demo_jobs 20)
   = Some demo_midrun_state"
  by (simp add: run_defs demo_defs demo_sched_midrun_def demo_used_def demo_results_def
      demo_statistics_def demo_midrun_state_def demo_midrun_statistics_def)

text \<open>
  C9. NewBatchProcessor turns a requested worker count of 0 or less into 1. After any
  calls of ProcessJobs and Close on the processor, and at any moment of a further run,
  GetWorkerCount still gives the count set by NewBatchProcessor, which is at least 1; a
  run over a non-empty job list has that many workers, so at least one.
\<close>

theorem worker_count_at_least_one:
  assumes "lifecycle (NewBatchProcessor cfg wc) calls = Some bp"
    and "reaches e bp ctx jobs now sched s"
  shows "GetWorkerCount (proc s) = (if wc \<le> 0 then 1 else wc)
    \<and> 1 \<le> GetWorkerCount (proc s)
    \<and> (jobs \<noteq> [] \<longrightarrow> int (length (workers s)) = GetWorkerCount (proc s))"
  using lifecycle_workerCount [OF assms(1)] reaches_frame [OF assms(2)]
  by (simp add: NewBatchProcessor_workerCount GetWorkerCount_def)

theorem worker_count_at_least_one_witness:
  "lifecycle (NewBatchProcessor demo_config 0)
     [CallProcessJobs demo_env None demo_jobs 10 demo_sched, CallClose] = Some demo_used
   \<and> reaches demo_env demo_used None demo_jobs 20 demo_sched_midrun
       demo_midrun_state
   \<and> GetWorkerCount demo_used = 1"
proof -
  have r: "reaches demo_env demo_used None demo_jobs 20 demo_sched_midrun
       demo_midrun_state"
    unfolding reaches_def by (rule demo_midrun_exec)
  show ?thesis
    using worker_count_at_least_one [OF demo_lifecycle r] demo_lifecycle r
    by (simp add: GetWorkerCount_def demo_used_def)
qed

subsection \<open>The empty run\<close>

lemma step_empty_run:
  assumes "step e a s = Some s'"
    and "mainPC s = MReturned None \<and> results s = [] \<and> workers s = [] \<and> dispatcher s = None
         \<and> \<not> closer s \<and> proc s = bp"
  shows "mainPC s' = MReturned None \<and> results s' = [] \<and> workers s' = [] \<and> dispatcher s' = None
         \<and> \<not> closer s' \<and> proc s' = bp"
  using assms
proof (cases rule: stepE)
qed simp_all

lemma reaches_empty_run:
  assumes "reaches e bp ctx [] now sched s"
  shows "mainPC s = MReturned None \<and> results s = [] \<and> workers s = [] \<and> dispatcher s = None
         \<and> \<not> closer s \<and> proc s = bp"
  using assms unfolding reaches_def
proof (rule exec_invariant)
qed (simp_all add: ProcessJobs_start_def step_empty_run)

text \<open>
  C7. With an empty job list ProcessJobs returns at once (under the empty schedule) an
  empty result list and a nil error, whatever the context is, also a context that is
  already done. No worker, dispatcher or closing goroutine exists then or at any later
  moment.
\<close>

theorem empty_run_returns_at_once:
  "ProcessJobs e bp ctx [] now [] = Some ([], None)
   \<and> (reaches e bp ctx [] now sched s \<longrightarrow>
        mainPC s = MReturned None \<and> results s = [] \<and> workers s = []
        \<and> dispatcher s = None \<and> \<not> closer s)"
  using reaches_empty_run [of e bp ctx now sched s]
  by (simp add: ProcessJobs_def ProcessJobs_start_def)

theorem empty_run_returns_at_once_witness:
  "ProcessJobs demo_env demo_used (Some ContextCanceled) [] 30 [] = Some ([], None)
   \<and> reaches demo_env demo_used None [] 30 [CtxCancel DeadlineExceeded]
       demo_empty_state"
proof -
  have r: "reaches demo_env demo_used None [] 30 [CtxCancel DeadlineExceeded]
       demo_empty_state"
    by (simp add: reaches_def run_defs demo_empty_state_def)
  show ?thesis
    using empty_run_returns_at_once [of demo_env demo_used "Some ContextCanceled" 30
        "[CtxCancel DeadlineExceeded]"] r
    by simp
qed

text \<open>
  C10. A call of ProcessJobs with an empty job list leaves the processor as it was: at
  every moment the statistics GetStatistics gives are those from before the call, field by
  field, so after an earlier run they are still that run's statistics.
\<close>

theorem empty_run_keeps_statistics:
  assumes "reaches e bp ctx [] now sched s"
  shows "GetStatistics (proc s) = GetStatistics bp \<and> proc s = bp"
  using reaches_empty_run [OF assms] by simp

theorem empty_run_keeps_statistics_witness:
  "reaches demo_env demo_used None [] 30 [CtxCancel DeadlineExceeded]
       demo_empty_state
   \<and> GetStatistics demo_used = demo_statistics
   \<and> statistics_after demo_env demo_used None [] 30 [CtxCancel DeadlineExceeded]
       = Some demo_statistics"
proof -
  have r: "reaches demo_env demo_used None [] 30 [CtxCancel DeadlineExceeded]
       demo_empty_state"
    by (simp add: reaches_def run_defs demo_empty_state_def)
  show ?thesis
    using empty_run_keeps_statistics [OF r] r
    by (simp add: GetStatistics_def demo_used_def statistics_after_def reaches_def
        demo_empty_state_def)
qed

subsection \<open>The statistics fold\<close>

lemma step_tally:
  assumes "step e a s = Some s'"
    and "CompletedJobs (stats (proc s)) = int (length [r \<leftarrow> results s. Error r = None])
       \<and> FailedJobs (stats (proc s)) = int (length [r \<leftarrow> results s. Error r \<noteq> None])
       \<and> TotalDuration (stats (proc s)) = sum_list (map Duration (results s))
       \<and> TotalJobs (stats (proc s)) = n"
  shows "CompletedJobs (stats (proc s')) = int (length [r \<leftarrow> results s'. Error r = None])
       \<and> FailedJobs (stats (proc s')) = int (length [r \<leftarrow> results s'. Error r \<noteq> None])
       \<and> TotalDuration (stats (proc s')) = sum_list (map Duration (results s'))
       \<and> TotalJobs (stats (proc s')) = n"
  using assms
proof (cases rule: stepE)
qed (simp_all add: set_worker_def record_result_def finalize_stats_def Let_def)

lemma reaches_tally:
  assumes "jobs \<noteq> []" and "reaches e bp ctx jobs now sched s"
  shows "CompletedJobs (stats (proc s)) = int (length [r \<leftarrow> results s. Error r = None])
       \<and> FailedJobs (stats (proc s)) = int (length [r \<leftarrow> results s. Error r \<noteq> None])
       \<and> TotalDuration (stats (proc s)) = sum_list (map Duration (results s))
       \<and> TotalJobs (stats (proc s)) = int (length jobs)"
  using assms(2) unfolding reaches_def
proof (rule exec_invariant)
qed (simp_all add: ProcessJobs_start_def zeroStatistics_def assms(1) step_tally)

lemma length_filter_split:
  "int (length [r \<leftarrow> rs. P r]) + int (length [r \<leftarrow> rs. \<not> P r]) = int (length rs)"
  using sum_length_filter_compl [of P rs] by linarith

text \<open>
  C3, as the code has it: in a run over a non-empty job list. At every moment the
  statistics are the fold of the results collected so far: completed_jobs counts those
  without an error, failed_jobs those with one, so their sum is the number collected, and
  total_duration is the sum of their durations. When the collecting loop of a never
  cancelled run has ended, the sum of the two counters is total_jobs. (A call with an
  empty job list has no collector and leaves the statistics of the run before.)
\<close>

theorem statistics_account_for_results:
  assumes "lifecycle (NewBatchProcessor cfg wc) calls = Some bp"
    and "jobs \<noteq> []"
    and "reaches e bp ctx jobs now sched s"
  shows "CompletedJobs (GetStatistics (proc s)) + FailedJobs (GetStatistics (proc s))
           = int (length (results s))
    \<and> CompletedJobs (GetStatistics (proc s)) = int (length [r \<leftarrow> results s. Error r = None])
    \<and> FailedJobs (GetStatistics (proc s)) = int (length [r \<leftarrow> results s. Error r \<noteq> None])
    \<and> TotalDuration (GetStatistics (proc s)) = sum_list (map Duration (results s))
    \<and> (never_cancelled ctx sched \<and> mainPC s \<noteq> MCollect \<longrightarrow>
         CompletedJobs (GetStatistics (proc s)) + FailedJobs (GetStatistics (proc s))
           = TotalJobs (GetStatistics (proc s)))"
proof -
  note t = reaches_tally [OF assms(2,3)]
  have sum: "CompletedJobs (stats (proc s)) + FailedJobs (stats (proc s)) = int (length (results s))"
    using t length_filter_split [of "\<lambda>r. Error r = None" "results s"] by simp
  have "CompletedJobs (stats (proc s)) + FailedJobs (stats (proc s)) = TotalJobs (stats (proc s))"
    if nc: "never_cancelled ctx sched" and fin: "mainPC s \<noteq> MCollect"
  proof -
    have W: "0 < workerCount bp"
      using lifecycle_workerCount [OF assms(1)] by (simp add: NewBatchProcessor_workerCount)
    have live: "ctxErr s = None" using nc assms(3) by (rule never_cancelled_ctxErr)
    have "mset (map Job (results s)) = mset jobs"
      using assms(2) W assms(3) fin live by (rule collected_all)
    then have "length (map Job (results s)) = length jobs" by (rule mset_eq_length)
    with sum t show ?thesis by simp
  qed
  with sum t show ?thesis by (simp add: GetStatistics_def)
qed

theorem statistics_account_for_results_witness:
  "reaches demo_env demo_used None demo_jobs 20 demo_sched_midrun demo_midrun_state
   \<and> CompletedJobs (GetStatistics (proc demo_midrun_state))
       + FailedJobs (GetStatistics (proc demo_midrun_state))
      = int (length (results demo_midrun_state))
   \<and> length (results demo_midrun_state) = 1"
proof -
  have r: "reaches demo_env demo_used None demo_jobs 20 demo_sched_midrun demo_midrun_state"
    unfolding reaches_def by (rule demo_midrun_exec)
  show ?thesis
    using statistics_account_for_results [OF demo_lifecycle demo_jobs_nonempty r] r
    by (simp add: demo_midrun_state_def)
qed

text \<open>
  Not so without jobs: after the small run, a call with an empty job list on the same
  processor returns no result, while the statistics still count the two results of the
  run before.
\<close>

theorem statistics_empty_run_counterexample:
  "lifecycle (NewBatchProcessor demo_config 0)
     [CallProcessJobs demo_env None demo_jobs 10 demo_sched] = Some demo_used
   \<and> ProcessJobs demo_env demo_used None [] 30 [] = Some ([], None)
   \<and> statistics_after demo_env demo_used None [] 30 [] = Some demo_statistics
   \<and> CompletedJobs demo_statistics + FailedJobs demo_statistics
       \<noteq> int (length ([] :: BatchResult list))"
proof (intro conjI)
  show "lifecycle (NewBatchProcessor demo_config 0)
     [CallProcessJobs demo_env None demo_jobs 10 demo_sched] = Some demo_used"
    by (simp add: demo_exec demo_final_state_def)
  show "ProcessJobs demo_env demo_used None [] 30 [] = Some ([], None)"
    by (simp add: ProcessJobs_def ProcessJobs_start_def)
  show "statistics_after demo_env demo_used None [] 30 [] = Some demo_statistics"
    by (simp add: statistics_after_def ProcessJobs_start_def GetStatistics_def demo_used_def)
  show "CompletedJobs demo_statistics + FailedJobs demo_statistics
       \<noteq> int (length ([] :: BatchResult list))"
    by (simp add: demo_statistics_def)
qed

subsection \<open>The average\<close>

lemma step_average:
  assumes "step e a s = Some s'"
    and "0 < TotalJobs (stats (proc s))"
    and "(mainPC s = MCollect \<longrightarrow> AverageDuration (stats (proc s)) = 0)
       \<and> (mainPC s \<noteq> MCollect \<longrightarrow> AverageDuration (stats (proc s))
            = div_int64 (TotalDuration (stats (proc s))) (word_of_int (TotalJobs (stats (proc s)))))"
  shows "(mainPC s' = MCollect \<longrightarrow> AverageDuration (stats (proc s')) = 0)
       \<and> (mainPC s' \<noteq> MCollect \<longrightarrow> AverageDuration (stats (proc s'))
            = div_int64 (TotalDuration (stats (proc s'))) (word_of_int (TotalJobs (stats (proc s')))))"
  using assms
proof (cases rule: stepE)
qed (simp_all add: set_worker_def record_result_def finalize_stats_def Let_def)

lemma reaches_average:
  assumes "jobs \<noteq> []" and "reaches e bp ctx jobs now sched s"
  shows "(mainPC s = MCollect \<longrightarrow> AverageDuration (stats (proc s)) = 0)
       \<and> (mainPC s \<noteq> MCollect \<longrightarrow> AverageDuration (stats (proc s))
            = div_int64 (TotalDuration (stats (proc s))) (word_of_int (TotalJobs (stats (proc s)))))"
proof -
  have "((mainPC s = MCollect \<longrightarrow> AverageDuration (stats (proc s)) = 0)
       \<and> (mainPC s \<noteq> MCollect \<longrightarrow> AverageDuration (stats (proc s))
            = div_int64 (TotalDuration (stats (proc s))) (word_of_int (TotalJobs (stats (proc s))))))
       \<and> (CompletedJobs (stats (proc s)) = int (length [r \<leftarrow> results s. Error r = None])
       \<and> FailedJobs (stats (proc s)) = int (length [r \<leftarrow> results s. Error r \<noteq> None])
       \<and> TotalDuration (stats (proc s)) = sum_list (map Duration (results s))
       \<and> TotalJobs (stats (proc s)) = int (length jobs))"
    using assms(2) unfolding reaches_def
  proof (rule exec_invariant)
    show "((mainPC (ProcessJobs_start bp ctx jobs now) = MCollect \<longrightarrow> AverageDuration (stats (proc (ProcessJobs_start bp ctx jobs now))) = 0)
       \<and> (mainPC (ProcessJobs_start bp ctx jobs now) \<noteq> MCollect \<longrightarrow> AverageDuration (stats (proc (ProcessJobs_start bp ctx jobs now)))
            = div_int64 (TotalDuration (stats (proc (ProcessJobs_start bp ctx jobs now)))) (word_of_int (TotalJobs (stats (proc (ProcessJobs_start bp ctx jobs now)))))))
       \<and> (CompletedJobs (stats (proc (ProcessJobs_start bp ctx jobs now))) = int (length [r \<leftarrow> results (ProcessJobs_start bp ctx jobs now). Error r = None])
       \<and> FailedJobs (stats (proc (ProcessJobs_start bp ctx jobs now))) = int (length [r \<leftarrow> results (ProcessJobs_start bp ctx jobs now). Error r \<noteq> None])
       \<and> TotalDuration (stats (proc (ProcessJobs_start bp ctx jobs now))) = sum_list (map Duration (results (ProcessJobs_start bp ctx jobs now)))
       \<and> TotalJobs (stats (proc (ProcessJobs_start bp ctx jobs now))) = int (length jobs))"
      using assms(1) by (simp add: ProcessJobs_start_def zeroStatistics_def)
  next
    fix a s s'
    assume "((mainPC s = MCollect \<longrightarrow> AverageDuration (stats (proc s)) = 0)
       \<and> (mainPC s \<noteq> MCollect \<longrightarrow> AverageDuration (stats (proc s))
            = div_int64 (TotalDuration (stats (proc s))) (word_of_int (TotalJobs (stats (proc s))))))
       \<and> (CompletedJobs (stats (proc s)) = int (length [r \<leftarrow> results s. Error r = None])
       \<and> FailedJobs (stats (proc s)) = int (length [r \<leftarrow> results s. Error r \<noteq> None])
       \<and> TotalDuration (stats (proc s)) = sum_list (map Duration (results s))
       \<and> TotalJobs (stats (proc s)) = int (length jobs))"
      and "step e a s = Some s'"
    then show "((mainPC s' = MCollect \<longrightarrow> AverageDuration (stats (proc s')) = 0)
       \<and> (mainPC s' \<noteq> MCollect \<longrightarrow> AverageDuration (stats (proc s'))
            = div_int64 (TotalDuration (stats (proc s'))) (word_of_int (TotalJobs (stats (proc s'))))))
       \<and> (CompletedJobs (stats (proc s')) = int (length [r \<leftarrow> results s'. Error r = None])
       \<and> FailedJobs (stats (proc s')) = int (length [r \<leftarrow> results s'. Error r \<noteq> None])
       \<and> TotalDuration (stats (proc s')) = sum_list (map Duration (results s'))
       \<and> TotalJobs (stats (proc s')) = int (length jobs))"
      using step_average [of e a s s'] step_tally [of e a s s' "int (length jobs)"] assms(1)
      by simp
  qed
  then show ?thesis by simp
qed

lemma word_of_int_nonzero:
  assumes "0 < n" and "n < 2 ^ 63"
  shows "(word_of_int (int n) :: 64 word) \<noteq> 0"
proof
  assume "(word_of_int (int n) :: 64 word) = 0"
  then have "(2::nat) ^ 64 dvd n" by (simp add: word_of_nat_eq_0_iff)
  then have "(2::nat) ^ 64 \<le> n" using assms(1) by (rule dvd_imp_le)
  with assms(2) show False by simp
qed

text \<open>
  C5, as the code has it. In a run over a non-empty job list average_duration stays 0
  while the collecting loop runs: no average is kept during the run. Once the loop has
  ended it is total_duration / total_jobs, by Go's int64 division, where total_jobs is
  the number of jobs submitted and greater than 0; for a job list of a length that fits an
  int the divisor is not zero.
\<close>

theorem average_set_at_finalization:
  assumes "jobs \<noteq> []" and "reaches e bp ctx jobs now sched s"
  shows "(mainPC s = MCollect \<longrightarrow> AverageDuration (GetStatistics (proc s)) = 0)
    \<and> (mainPC s \<noteq> MCollect \<longrightarrow>
         AverageDuration (GetStatistics (proc s))
           = div_int64 (TotalDuration (GetStatistics (proc s)))
               (word_of_int (TotalJobs (GetStatistics (proc s)))))
    \<and> TotalJobs (GetStatistics (proc s)) = int (length jobs)
    \<and> 0 < TotalJobs (GetStatistics (proc s))
    \<and> (length jobs < 2 ^ 63 \<longrightarrow>
         (word_of_int (TotalJobs (GetStatistics (proc s))) :: 64 word) \<noteq> 0)"
proof -
  have n: "TotalJobs (stats (proc s)) = int (length jobs)"
    using reaches_tally [OF assms] by simp
  have pos: "0 < length jobs" using assms(1) by simp
  have "(word_of_int (int (length jobs)) :: 64 word) \<noteq> 0" if "length jobs < 2 ^ 63"
    using pos that by (rule word_of_int_nonzero)
  with n pos reaches_average [OF assms] show ?thesis
    by (simp add: GetStatistics_def)
qed

theorem average_set_at_finalization_witness:
  "reaches demo_env (NewBatchProcessor demo_config 0) None demo_jobs 10 demo_sched
     demo_final_state
   \<and> AverageDuration (GetStatistics (proc demo_final_state)) = 6
   \<and> div_int64 (TotalDuration (GetStatistics (proc demo_final_state)))
       (word_of_int (TotalJobs (GetStatistics (proc demo_final_state)))) = 6"
proof -
  have r: "reaches demo_env (NewBatchProcessor demo_config 0) None demo_jobs 10 demo_sched
     demo_final_state"
    unfolding reaches_def by (rule demo_exec)
  show ?thesis
    using average_set_at_finalization [OF demo_jobs_nonempty r] r
    by (simp add: demo_final_state_def demo_used_def demo_statistics_def GetStatistics_def)
qed

text \<open>
  During the run the average is no quotient: in the second run of the small example, when
  one result of 5 ns has been collected, total_duration is 5 and average_duration is 0,
  which is neither 5 / 2, by the number of jobs, nor 5 / 1, by the number of results.
\<close>

theorem average_midrun_counterexample:
  "statistics_after demo_env demo_used None demo_jobs 20 demo_sched_midrun
     = Some demo_midrun_statistics
   \<and> AverageDuration demo_midrun_statistics
       \<noteq> div_int64 (TotalDuration demo_midrun_statistics)
           (word_of_int (TotalJobs demo_midrun_statistics))
   \<and> AverageDuration demo_midrun_statistics
       \<noteq> div_int64 (TotalDuration demo_midrun_statistics)
           (word_of_int (CompletedJobs demo_midrun_statistics
              + FailedJobs demo_midrun_statistics))"
  by (simp add: statistics_after_def demo_midrun_exec demo_midrun_state_def GetStatistics_def
      demo_midrun_statistics_def div_int64_def)

subsection \<open>The return statement\<close>

lemma step_mainPC:
  assumes "step e a s = Some s'"
  shows "(mainPC s' = mainPC s \<and> (results s' = results s \<or> mainPC s = MCollect))
    \<or> (mainPC s = MCollect \<and> mainPC s' = MFinalized \<and> results s' = results s)
    \<or> (a = Return \<and> mainPC s = MFinalized \<and> mainPC s' = MReturned (ctxErr s)
        \<and> results s' = results s)"
  using assms
proof (cases rule: stepE)
qed (simp_all add: set_worker_def)

lemma exec_after_return:
  "exec e sched s0 = Some s \<Longrightarrow> mainPC s0 = MReturned x
   \<Longrightarrow> mainPC s = MReturned x \<and> results s = results s0"
proof (induction sched arbitrary: s0)
  case Nil
  then show ?case by simp
next
  case (Cons a as)
  from Cons.prems obtain s1 where st: "step e a s0 = Some s1" and ex: "exec e as s1 = Some s"
    by (auto split: option.splits)
  from step_mainPC [OF st] Cons.prems(2)
  have "mainPC s1 = MReturned x \<and> results s1 = results s0" by auto
  with Cons.IH [OF ex] show ?case by simp
qed

lemma returned_at_Return:
  "exec e sched s0 = Some s \<Longrightarrow> mainPC s0 = MCollect \<or> mainPC s0 = MFinalized
   \<Longrightarrow> mainPC s = MReturned err
   \<Longrightarrow> \<exists>before after s1. sched = before @ Return # after \<and> exec e before s0 = Some s1
         \<and> err = ctxErr s1 \<and> results s = results s1"
proof (induction sched arbitrary: s0)
  case Nil
  then show ?case by auto
next
  case (Cons a as)
  from Cons.prems(1) obtain s1 where st: "step e a s0 = Some s1" and ex: "exec e as s1 = Some s"
    by (auto split: option.splits)
  show ?case
  proof (cases "mainPC s1 = MCollect \<or> mainPC s1 = MFinalized")
    case True
    from Cons.IH [OF ex True Cons.prems(3)]
    obtain before after s2 where "as = before @ Return # after" "exec e before s1 = Some s2"
      "err = ctxErr s2" "results s = results s2" by blast
    with st have "a # as = (a # before) @ Return # after \<and> exec e (a # before) s0 = Some s2
      \<and> err = ctxErr s2 \<and> results s = results s2" by simp
    then show ?thesis by blast
  next
    case False
    with step_mainPC [OF st] Cons.prems(2)
    have a: "a = Return" and r: "mainPC s1 = MReturned (ctxErr s0)" and rs: "results s1 = results s0"
      by auto
    from exec_after_return [OF ex r] Cons.prems(3) rs
    have "err = ctxErr s0" "results s = results s0" by auto
    with a have "a # as = [] @ Return # as \<and> exec e [] s0 = Some s0
      \<and> err = ctxErr s0 \<and> results s = results s0" by simp
    then show ?thesis by blast
  qed
qed

lemma exec_ctx_done:
  "exec e sched s0 = Some s \<Longrightarrow> ctxErr s0 = Some x \<Longrightarrow> ctxErr s = Some x"
proof (induction sched arbitrary: s0)
  case Nil
  then show ?case by simp
next
  case (Cons a as)
  then show ?case using step_ctxErr [of e a s0] by (auto split: option.splits)
qed

lemma reaches_results_bound:
  assumes "reaches e bp ctx jobs now sched s"
  shows "length (results s) \<le> length jobs"
proof -
  have "mset (map Job (results s)) \<subseteq># accounted s" by (simp add: accounted_def)
  also have "\<dots> \<subseteq># mset jobs" using reaches_accounted [OF assms] by simp
  finally have "size (mset (map Job (results s))) \<le> size (mset jobs)" by (rule size_mset_mono)
  then show ?thesis by simp
qed

subsection \<open>Where a result comes from\<close>

lemma worker_index_setupFailure [simp]: "worker_index (setupFailure i err j) = i"
  by (simp add: worker_index_def setupFailure_def)

lemma worker_index_generated [simp]: "worker_index (generated e c i d j) = i"
  by (simp add: worker_index_def generated_def)

lemma origin_ok_setupFailure:
  "getClient e cfg i = Some err \<Longrightarrow> origin_ok e cfg (setupFailure i err j)"
  by (simp add: origin_ok_def) (simp add: setupFailure_def)

lemma origin_ok_generated:
  "getClient e cfg i = None \<Longrightarrow> origin_ok e cfg (generated e None i d j)"
  by (simp add: origin_ok_def) (simp add: generated_def)

lemma step_origin:
  assumes "step e a s = Some s'"
    and "ctxErr s = None \<longrightarrow>
           (\<forall>i<length (workers s). consistent e (config (proc s)) i (workers s ! i))
         \<and> (\<forall>r\<in>set (resultChan s) \<union> set (results s). origin_ok e (config (proc s)) r)"
  shows "ctxErr s' = None \<longrightarrow>
           (\<forall>i<length (workers s'). consistent e (config (proc s')) i (workers s' ! i))
         \<and> (\<forall>r\<in>set (resultChan s') \<union> set (results s'). origin_ok e (config (proc s')) r)"
  using assms
proof (cases rule: stepE)
qed (auto simp: set_worker_def nth_list_update origin_ok_setupFailure origin_ok_generated)

lemma reaches_origin:
  assumes "reaches e bp ctx jobs now sched s" and "ctxErr s = None" and "r \<in> set (results s)"
  shows "origin_ok e (config bp) r"
proof -
  have "ctxErr s = None \<longrightarrow>
           (\<forall>i<length (workers s). consistent e (config (proc s)) i (workers s ! i))
         \<and> (\<forall>r\<in>set (resultChan s) \<union> set (results s). origin_ok e (config (proc s)) r)"
    using assms(1) unfolding reaches_def
  proof (rule exec_invariant)
    show "ctxErr (ProcessJobs_start bp ctx jobs now) = None \<longrightarrow>
      (\<forall>i<length (workers (ProcessJobs_start bp ctx jobs now)).
          consistent e (config (proc (ProcessJobs_start bp ctx jobs now))) i
            (workers (ProcessJobs_start bp ctx jobs now) ! i))
      \<and> (\<forall>r\<in>set (resultChan (ProcessJobs_start bp ctx jobs now))
              \<union> set (results (ProcessJobs_start bp ctx jobs now)).
            origin_ok e (config (proc (ProcessJobs_start bp ctx jobs now))) r)"
      by (simp add: ProcessJobs_start_def)
  qed (rule step_origin)
  with assms(2,3) reaches_frame [OF assms(1)] show ?thesis by simp
qed

lemma origin_ok_client:
  assumes "origin_ok e cfg r" and "getClient e cfg (worker_index r) = None"
  shows "Response r = fst (generate e None (Prompt (Job r)))"
    and "Error r = snd (generate e None (Prompt (Job r)))"
proof -
  from assms have "r = generated e None (worker_index r) (Duration r) (Job r)"
    by (simp add: origin_ok_def)
  then have "Response r = Response (generated e None (worker_index r) (Duration r) (Job r))"
    and "Error r = Error (generated e None (worker_index r) (Duration r) (Job r))"
    by simp_all
  then show "Response r = fst (generate e None (Prompt (Job r)))"
    and "Error r = snd (generate e None (Prompt (Job r)))"
    by (simp_all add: generated_def)
qed

lemma returned_origin:
  assumes "never_cancelled ctx sched" and "ProcessJobs e bp ctx jobs now sched = Some (rs, err)"
    and "r \<in> set rs"
  shows "origin_ok e (config bp) r"
proof -
  from assms(2) obtain s where run: "reaches e bp ctx jobs now sched s" and rs: "results s = rs"
    by (rule ProcessJobs_SomeD)
  have live: "ctxErr s = None" using assms(1) run by (rule never_cancelled_ctxErr)
  have "r \<in> set (results s)" by (simp add: rs assms(3))
  with run live show ?thesis by (rule reaches_origin)
qed

lemma demo_run_nofail:
  "ProcessJobs demo_env_nofail (NewBatchProcessor demo_config 0) None demo_jobs 10 demo_sched
   = Some (demo_results_nofail, None)"
  by (simp add: ProcessJobs_def run_defs demo_env_nofail_def demo_jobs_def demo_sched_def
      demo_config_def NewBatchProcessor_def createJobsFromPrompts_def job_id_0 job_id_1
      demo_results_nofail_def)

lemma origin_ok_noclient:
  assumes "origin_ok e cfg r" and "getClient e cfg (worker_index r) = Some x"
  shows "Response r = []" and "Error r = Some (Wrapped ''failed to create LLM client: '' x)"
proof -
  from assms have "r = setupFailure (worker_index r) x (Job r)"
    by (simp add: origin_ok_def)
  then have "Response r = Response (setupFailure (worker_index r) x (Job r))"
    and "Error r = Error (setupFailure (worker_index r) x (Job r))"
    by simp_all
  then show "Response r = []"
    and "Error r = Some (Wrapped ''failed to create LLM client: '' x)"
    by (simp_all add: setupFailure_def)
qed

text \<open>
  Two runs that are never cancelled, with any schedules, processors and job lists and with
  generators that may differ: a job that both have handled, by workers to which the
  factory gave the same, and on whose prompt the two generators agree, has the same
  response and the same error in both.
\<close>

lemma same_job_same_result:
  assumes "never_cancelled ctx sched"
    and "ProcessJobs e bp ctx jobs now sched = Some (rs, err)"
    and "never_cancelled ctx' sched'"
    and "ProcessJobs e' bp' ctx' jobs' now' sched' = Some (rs', err')"
    and "r \<in> set rs" and "r' \<in> set rs'" and "Job r = Job r'"
    and "getClient e (config bp) (worker_index r) = getClient e' (config bp') (worker_index r')"
    and "generate e None (Prompt (Job r)) = generate e' None (Prompt (Job r))"
  shows "Response r = Response r' \<and> Error r = Error r'
    \<and> (getClient e (config bp) (worker_index r) = None \<longrightarrow>
         (Response r, Error r) = generate e None (Prompt (Job r)))"
proof -
  have o: "origin_ok e (config bp) r" using assms(1,2,5) by (rule returned_origin)
  have o': "origin_ok e' (config bp') r'" using assms(3,4,6) by (rule returned_origin)
  show ?thesis
  proof (cases "getClient e (config bp) (worker_index r)")
    case None
    then have n': "getClient e' (config bp') (worker_index r') = None" using assms(8) by simp
    from origin_ok_client [OF o None] origin_ok_client [OF o' n'] assms(7,9) None
    show ?thesis by (simp add: prod_eq_iff)
  next
    case (Some x)
    then have s': "getClient e' (config bp') (worker_index r') = Some x" using assms(8) by simp
    from origin_ok_noclient [OF o Some] origin_ok_noclient [OF o' s'] Some
    show ?thesis by simp
  qed
qed

subsection \<open>A worker without a client\<close>




lemma holding_inflight: "i < length ws \<Longrightarrow> holding (ws ! i) \<noteq> [] \<Longrightarrow> inflight ws \<noteq> []"
  using nth_mem [of i ws] by (auto simp: inflight_def)







subsection \<open>The job source\<close>

lemma length_jobsFrom: "length (jobsFrom i ps) = length ps"
  by (induction ps arbitrary: i) simp_all

lemma nth_jobsFrom:
  "k < length ps \<Longrightarrow> jobsFrom i ps ! k = \<lparr>ID = job_id (i + k), Prompt = ps ! k, Metadata = Map.empty\<rparr>"
proof (induction ps arbitrary: i k)
  case Nil
  then show ?case by simp
next
  case (Cons p ps)
  then show ?case by (cases k) simp_all
qed

lemma scanPrompts_filter:
  "scanPrompts trim ls = filter (\<lambda>l. l \<noteq> [] \<and> \<not> prefix ''#'' l) (map trim ls)"
  by (induction ls) (simp_all add: Let_def)

text \<open>The value a decimal numeral denotes.\<close>

lemma decimal_value:
  "foldl (\<lambda>v c. 10 * v + (of_char c - 48)) 0 (decimal n) = n"
proof (induction n rule: decimal.induct)
  case (1 n)
  have dc: "of_char (digit_char d) - 48 = d" if "d < 10" for d :: nat
    using that by (simp add: digit_char_def)
  show ?case
  proof (cases "n < 10")
    case True
    then show ?thesis by (subst decimal.simps) (simp add: dc)
  next
    case False
    then show ?thesis using 1 by (subst decimal.simps) (simp add: dc)
  qed
qed

lemma demo_lines_scan:
  "scanPrompts asciiTrimSpace demo_lines
   = [''First prompt'', ''Second prompt'', ''Third prompt'', ''Fourth prompt'']"
  by code_simp

lemma job_id_3: "job_id 3 = ''job-4''"
  by code_simp

text \<open>
  C8, as the code has it. createJobsFromPrompts gives as many jobs as prompts; the job at
  0-based position \<open>k\<close> has the id \<^verbatim>\<open>job-\<close> followed by the decimal numeral of \<open>k + 1\<close> and
  has the \<open>k\<close>-th prompt. createJobsFromFile trims every line first, keeps the trimmed
  texts that are not empty and do not start with \<^verbatim>\<open>#\<close>, and makes the jobs of these
  trimmed texts in the same way; when the file cannot be opened or the scanner stops on an
  error it returns the error and no job.
\<close>

theorem job_source_numbers_in_order:
  "length (createJobsFromPrompts prompts) = length prompts
   \<and> (\<forall>k<length prompts.
         ID (createJobsFromPrompts prompts ! k) = ''job-'' @ decimal (k + 1)
       \<and> foldl (\<lambda>v c. 10 * v + (of_char c - 48)) 0 (decimal (k + 1)) = k + 1
       \<and> Prompt (createJobsFromPrompts prompts ! k) = prompts ! k)
   \<and> createJobsFromFile trim (Scanned ls None)
       = Inr (createJobsFromPrompts [l \<leftarrow> map trim ls. l \<noteq> [] \<and> \<not> prefix ''#'' l])
   \<and> createJobsFromFile trim (OpenFails err) = Inl (Wrapped ''failed to open file: '' err)
   \<and> createJobsFromFile trim (Scanned ls (Some err))
       = Inl (Wrapped ''error reading file: '' err)"
  by (simp add: createJobsFromPrompts_def length_jobsFrom nth_jobsFrom job_id_def
      decimal_value createJobsFromFile_def scanPrompts_filter)

theorem job_source_numbers_in_order_witness:
  "createJobsFromFile asciiTrimSpace (Scanned demo_lines None)
     = Inr (createJobsFromPrompts
         [''First prompt'', ''Second prompt'', ''Third prompt'', ''Fourth prompt''])
   \<and> (3::nat) < length [''First prompt'', ''Second prompt'', ''Third prompt'', ''Fourth prompt'']
   \<and> ID (createJobsFromPrompts
         [''First prompt'', ''Second prompt'', ''Third prompt'', ''Fourth prompt''] ! 3)
       = ''job-4''
   \<and> Prompt (createJobsFromPrompts
         [''First prompt'', ''Second prompt'', ''Third prompt'', ''Fourth prompt''] ! 3)
       = ''Fourth prompt''"
proof -
  have f: "[l \<leftarrow> map asciiTrimSpace demo_lines. l \<noteq> [] \<and> \<not> prefix ''#'' l]
      = [''First prompt'', ''Second prompt'', ''Third prompt'', ''Fourth prompt'']"
    using demo_lines_scan by (simp add: scanPrompts_filter)
  have d: "''job-'' @ decimal (3 + 1) = ''job-4''"
    using job_id_3 by (simp add: job_id_def)
  show ?thesis
    using job_source_numbers_in_order
      [of "[''First prompt'', ''Second prompt'', ''Third prompt'', ''Fourth prompt'']"
          asciiTrimSpace demo_lines "ErrorString ''read error''"]
      f d
    by simp
qed

text \<open>
  The prompt is the trimmed text, not the line, and the test for \<^verbatim>\<open>#\<close> is made on the
  trimmed text: of the two lines \<^verbatim>\<open>" a "\<close> and \<^verbatim>\<open>"  # c"\<close> the first gives the prompt
  \<^verbatim>\<open>a\<close>, and the second, which is not empty when trimmed and does not start with
  \<^verbatim>\<open>#\<close>, gives no job.
\<close>

theorem job_source_trims_counterexample:
  "createJobsFromFile asciiTrimSpace (Scanned ['' a '', ''  # c''] None)
     = Inr [\<lparr>ID = ''job-1'', Prompt = ''a'', Metadata = Map.empty\<rparr>]
   \<and> ''a'' \<noteq> '' a ''
   \<and> asciiTrimSpace ''  # c'' \<noteq> []
   \<and> \<not> prefix ''#'' ''  # c''"
proof -
  have "scanPrompts asciiTrimSpace ['' a '', ''  # c''] = [''a'']" by code_simp
  moreover have "asciiTrimSpace ''  # c'' \<noteq> []" by code_simp
  ultimately show ?thesis
    by (simp add: createJobsFromFile_def createJobsFromPrompts_def job_id_0)
qed

subsection \<open>Every run ends, and none gets stuck\<close>

lemma weight_update:
  "i < length ws \<Longrightarrow>
   sum_list (map weight (ws[i := w])) + weight (ws ! i) = sum_list (map weight ws) + weight w"
proof (induction ws arbitrary: i)
  case Nil
  then show ?case by simp
next
  case (Cons x xs)
  then show ?case by (cases i) (auto simp: add.assoc add.left_commute)
qed

lemma step_fuel:
  assumes "step e a s = Some s'"
  shows "fuel s' < fuel s"
  using assms step_not_panicked [OF assms]
proof (cases rule: stepE)
  case (GetClientFail i err)
  then show ?thesis using weight_update [of i "workers s" "WDrain err"]
    by (simp add: fuel_def set_worker_def)
next
  case (GetClientOk i)
  then show ?thesis using weight_update [of i "workers s" WSelect]
    by (simp add: fuel_def set_worker_def)
next
  case (DrainRecv i err j js)
  then show ?thesis
    using weight_update [of i "workers s" "WDrainSend err (setupFailure i err j)"]
    by (simp add: fuel_def set_worker_def)
next
  case (DrainEnd i err)
  then show ?thesis using weight_update [of i "workers s" WExit]
    by (simp add: fuel_def set_worker_def)
next
  case (Recv i j js)
  then show ?thesis using weight_update [of i "workers s" "WGenerate j"]
    by (simp add: fuel_def set_worker_def)
next
  case (RecvEnd i)
  then show ?thesis using weight_update [of i "workers s" WExit]
    by (simp add: fuel_def set_worker_def)
next
  case (SelectDone i)
  then show ?thesis using weight_update [of i "workers s" WExit]
    by (simp add: fuel_def set_worker_def)
next
  case (SendDone i r)
  then show ?thesis using weight_update [of i "workers s" WExit]
    by (simp add: fuel_def set_worker_def)
next
  case (Generate i d j)
  then show ?thesis
    using weight_update [of i "workers s" "WSend (generated e (ctxErr s) i d j)"]
    by (simp add: fuel_def set_worker_def)
next
  case (DrainSend i err r)
  then show ?thesis using weight_update [of i "workers s" "WDrain err"]
    by (simp add: fuel_def set_worker_def)
next
  case (Send i r)
  then show ?thesis using weight_update [of i "workers s" WSelect]
    by (simp add: fuel_def set_worker_def)
qed (simp_all add: fuel_def)

lemma exec_fuel: "exec e sched s0 = Some s \<Longrightarrow> length sched + fuel s \<le> fuel s0"
proof (induction sched arbitrary: s0)
  case Nil
  then show ?case by simp
next
  case (Cons a as)
  from Cons.prems obtain s1 where st: "step e a s0 = Some s1" and ex: "exec e as s1 = Some s"
    by (auto split: option.splits)
  from Cons.IH [OF ex] step_fuel [OF st] show ?case by simp
qed

lemma can_moveI:
  "step e a s \<noteq> None \<Longrightarrow> \<not> is_cancel a \<Longrightarrow> \<exists>a s'. \<not> is_cancel a \<and> step e a s = Some s'"
  by auto

lemma list_all_exited_or:
  "list_all exited ws \<or> (\<exists>i<length ws. \<not> exited (ws ! i))"
  by (auto simp: list_all_length)

lemma worker_can_move:
  assumes inv: "run_inv s" and closed: "jobChanClosed s" and i: "i < length (workers s)"
    and w: "\<not> exited (workers s ! i)"
    and room: "holding (workers s ! i) \<noteq> [] \<longrightarrow> length (resultChan s) < chanCap s"
  shows "\<exists>a s'. \<not> is_cancel a \<and> step e a s = Some s'"
proof -
  have np: "\<not> panicked s" using inv by (simp add: run_inv_def)
  have opn: "\<not> resultChanClosed s"
    using inv i w by (auto simp: run_inv_def dest: list_all_nthD)
  show ?thesis
  proof (cases "workers s ! i")
    case WStart
    then have "step e (WorkerGetClient i) s \<noteq> None"
      using np i by (simp add: step_def worker_get_client_def split: option.splits)
    then show ?thesis by (rule can_moveI) simp
  next
    case (WDrain err)
    then have "step e (WorkerRecv i) s \<noteq> None"
      using np i closed by (simp add: step_def worker_recv_def split: list.splits)
    then show ?thesis by (rule can_moveI) simp
  next
    case (WDrainSend err r)
    then have "step e (WorkerSend i) s \<noteq> None"
      using np i opn room by (simp add: step_def worker_send_def send_result_def)
    then show ?thesis by (rule can_moveI) simp
  next
    case WSelect
    then have "step e (WorkerRecv i) s \<noteq> None"
      using np i closed by (simp add: step_def worker_recv_def split: list.splits)
    then show ?thesis by (rule can_moveI) simp
  next
    case (WGenerate j)
    then have "step e (WorkerGenerate i 0) s \<noteq> None"
      using np i by (simp add: step_def worker_generate_def)
    then show ?thesis by (rule can_moveI) simp
  next
    case (WSend r)
    then have "step e (WorkerSend i) s \<noteq> None"
      using np i opn room by (simp add: step_def worker_send_def send_result_def)
    then show ?thesis by (rule can_moveI) simp
  next
    case WExit
    with w show ?thesis by simp
  qed
qed

lemma run_can_move:
  assumes inv: "run_inv s" and acc: "accounted s \<subseteq># mset jobs"
    and cap: "chanCap s = length jobs" and running: "\<forall>x. mainPC s \<noteq> MReturned x"
  shows "\<exists>a s'. \<not> is_cancel a \<and> step e a s = Some s'"
proof -
  have np: "\<not> panicked s" using inv by (simp add: run_inv_def)
  have "size (accounted s) \<le> size (mset jobs)" using acc by (rule size_mset_mono)
  then have bound: "length (pending s) + length (jobChan s) + length (inflight (workers s))
      + length (resultChan s) \<le> chanCap s"
    by (simp add: accounted_def cap)
  show ?thesis
  proof (cases "dispatcher s")
    case (Some rest)
    show ?thesis
    proof (cases rest)
      case Nil
      with Some np have "step e DispatcherEnd s \<noteq> None"
        by (simp add: step_def dispatcher_end_def)
      then show ?thesis by (rule can_moveI) simp
    next
      case (Cons j js)
      with Some bound have "length (jobChan s) < chanCap s" by (simp add: pending_def)
      with Some Cons np have "step e DispatcherSend s \<noteq> None"
        by (simp add: step_def dispatcher_send_def)
      then show ?thesis by (rule can_moveI) simp
    qed
  next
    case None
    with inv have closed: "jobChanClosed s" by (simp add: run_inv_def)
    from list_all_exited_or [of "workers s"] show ?thesis
    proof
      assume "\<exists>i<length (workers s). \<not> exited (workers s ! i)"
      then obtain i where i: "i < length (workers s)" and w: "\<not> exited (workers s ! i)"
        by blast
      have "length (resultChan s) < chanCap s" if "holding (workers s ! i) \<noteq> []"
      proof -
        have "inflight (workers s) \<noteq> []" using i that by (rule holding_inflight)
        with bound show ?thesis by (cases "inflight (workers s)") simp_all
      qed
      then have "holding (workers s ! i) \<noteq> [] \<longrightarrow> length (resultChan s) < chanCap s"
        by simp
      with inv closed i w show ?thesis by (rule worker_can_move)
    next
      assume all: "list_all exited (workers s)"
      show ?thesis
      proof (cases "closer s")
        case True
        with all np have "step e CloserClose s \<noteq> None"
          by (simp add: step_def closer_close_def)
        then show ?thesis by (rule can_moveI) simp
      next
        case False
        with inv have rc: "resultChanClosed s" by (simp add: run_inv_def)
        show ?thesis
        proof (cases "mainPC s")
          case MCollect
          show ?thesis
          proof (cases "resultChan s")
            case Nil
            with MCollect rc np have "step e (Finalize 0) s \<noteq> None"
              by (simp add: step_def finalize_def)
            then show ?thesis by (rule can_moveI) simp
          next
            case (Cons r rs)
            with MCollect np have "step e CollectorRecv s \<noteq> None"
              by (simp add: step_def collector_recv_def)
            then show ?thesis by (rule can_moveI) simp
          qed
        next
          case MFinalized
          with np have "step e Return s \<noteq> None"
            by (simp add: step_def return_results_def)
          then show ?thesis by (rule can_moveI) simp
        next
          case (MReturned x)
          with running show ?thesis by simp
        qed
      qed
    qed
  qed
qed

subsection \<open>Changing what the generator says\<close>

lemma outline_fields:
  assumes "outline s' = outline s"
  shows "ctxErr s' = ctxErr s" "chanCap s' = chanCap s" "jobChan s' = jobChan s"
    "jobChanClosed s' = jobChanClosed s" "resultChanClosed s' = resultChanClosed s"
    "dispatcher s' = dispatcher s" "closer s' = closer s" "mainPC s' = mainPC s"
    "panicked s' = panicked s"
    "map blank (resultChan s') = map blank (resultChan s)"
    "map blank_worker (workers s') = map blank_worker (workers s)"
    "map blank (results s') = map blank (results s)"
    "config (proc s') = config (proc s)" "workerCount (proc s') = workerCount (proc s)"
proof -
  have f: "g (outline s') = g (outline s)" for g :: "run \<Rightarrow> 'a" using assms by simp
  show "ctxErr s' = ctxErr s" using f [of ctxErr] by (simp add: outline_def)
  show "chanCap s' = chanCap s" using f [of chanCap] by (simp add: outline_def)
  show "jobChan s' = jobChan s" using f [of jobChan] by (simp add: outline_def)
  show "jobChanClosed s' = jobChanClosed s" using f [of jobChanClosed] by (simp add: outline_def)
  show "resultChanClosed s' = resultChanClosed s"
    using f [of resultChanClosed] by (simp add: outline_def)
  show "dispatcher s' = dispatcher s" using f [of dispatcher] by (simp add: outline_def)
  show "closer s' = closer s" using f [of closer] by (simp add: outline_def)
  show "mainPC s' = mainPC s" using f [of mainPC] by (simp add: outline_def)
  show "panicked s' = panicked s" using f [of panicked] by (simp add: outline_def)
  show "map blank (resultChan s') = map blank (resultChan s)"
    using f [of resultChan] by (simp add: outline_def)
  show "map blank_worker (workers s') = map blank_worker (workers s)"
    using f [of workers] by (simp add: outline_def)
  show "map blank (results s') = map blank (results s)"
    using f [of results] by (simp add: outline_def)
  show "config (proc s') = config (proc s)"
    using f [of "\<lambda>s. config (proc s)"] by (simp add: outline_def)
  show "workerCount (proc s') = workerCount (proc s)"
    using f [of "\<lambda>s. workerCount (proc s)"] by (simp add: outline_def)
qed

lemma outline_eqI:
  assumes "ctxErr s' = ctxErr s" "chanCap s' = chanCap s" "jobChan s' = jobChan s"
    "jobChanClosed s' = jobChanClosed s" "resultChanClosed s' = resultChanClosed s"
    "dispatcher s' = dispatcher s" "closer s' = closer s" "mainPC s' = mainPC s"
    "panicked s' = panicked s"
    "map blank (resultChan s') = map blank (resultChan s)"
    "map blank_worker (workers s') = map blank_worker (workers s)"
    "map blank (results s') = map blank (results s)"
    "config (proc s') = config (proc s)" "workerCount (proc s') = workerCount (proc s)"
  shows "outline s' = outline s"
  using assms by (cases s, cases s', cases "proc s", cases "proc s'") (simp add: outline_def)

lemma blank_workerD:
  assumes "blank_worker w' = blank_worker w"
  shows "w = WStart \<Longrightarrow> w' = WStart" "w = WDrain err \<Longrightarrow> w' = WDrain err"
    "w = WSelect \<Longrightarrow> w' = WSelect" "w = WGenerate j \<Longrightarrow> w' = WGenerate j"
    "w = WExit \<Longrightarrow> w' = WExit"
    "w = WDrainSend err r \<Longrightarrow> \<exists>r'. w' = WDrainSend err r' \<and> blank r' = blank r"
    "w = WSend r \<Longrightarrow> \<exists>r'. w' = WSend r' \<and> blank r' = blank r"
  using assms by (cases w'; simp)+

lemma exited_blank_worker [simp]: "exited (blank_worker w) = exited w"
  by (cases w) simp_all

lemma in_hand_blank_worker: "(in_hand (blank_worker w) = []) = (in_hand w = [])"
  by (cases w) simp_all

lemma list_all_exited_blank:
  assumes "map blank_worker ws' = map blank_worker ws"
  shows "list_all exited ws' = list_all exited ws"
proof -
  have "list_all exited ws' = list_all exited (map blank_worker ws')"
    by (simp add: list_all_iff)
  also have "\<dots> = list_all exited (map blank_worker ws)" by (simp add: assms)
  also have "\<dots> = list_all exited ws" by (simp add: list_all_iff)
  finally show ?thesis .
qed

lemma blank_setupFailure [simp]: "blank (setupFailure i err j) = (setupFailure i err j)\<lparr>Error := None\<rparr>"
  by (simp add: blank_def setupFailure_def)

lemma blank_generated: "blank (generated e' c i d j) = blank (generated e c i d j)"
  by (simp add: blank_def generated_def)

lemma step_outline:
  assumes st: "step e a s = Some s1" and g: "getClient e' = getClient e"
    and o: "outline s' = outline s"
  shows "\<exists>s1'. step e' a s' = Some s1' \<and> outline s1' = outline s1"
proof -
  note f = outline_fields [OF o]
  have np: "\<not> panicked s'" using step_not_panicked [OF st] f by simp
  have len: "length (workers s') = length (workers s)"
    using f(11) by (rule map_eq_imp_length_eq)
  have wk: "blank_worker (workers s' ! i) = blank_worker (workers s ! i)"
    if "i < length (workers s)" for i
    using that len arg_cong [OF f(11), of "\<lambda>ws. ws ! i"] by simp
  have ex: "list_all exited (workers s') = list_all exited (workers s)"
    using f(11) by (rule list_all_exited_blank)
  note defs = step_def ctx_cancel_def dispatcher_send_def dispatcher_ctx_done_def
    dispatcher_end_def worker_get_client_def worker_recv_def worker_ctx_done_def
    worker_generate_def worker_send_def send_result_def closer_close_def
    collector_recv_def finalize_def return_results_def set_worker_def
  from st show ?thesis
  proof (cases rule: stepE)
    case (Cancel err)
    have "step e' a s' = Some (s'\<lparr>ctxErr := Some err\<rparr>)"
      using Cancel np f by (simp add: defs)
    moreover have "outline (s'\<lparr>ctxErr := Some err\<rparr>) = outline s1"
      using Cancel f by (intro outline_eqI) simp_all
    ultimately show ?thesis by blast
  next
    case (DSend j rest)
    have "step e' a s' = Some (s'\<lparr>jobChan := jobChan s' @ [j], dispatcher := Some rest\<rparr>)"
      using DSend np f by (simp add: defs)
    moreover have "outline (s'\<lparr>jobChan := jobChan s' @ [j], dispatcher := Some rest\<rparr>) = outline s1"
      using DSend f by (intro outline_eqI) simp_all
    ultimately show ?thesis by blast
  next
    case (DCtxDone j rest)
    have "step e' a s' = Some (s'\<lparr>dispatcher := None, jobChanClosed := True\<rparr>)"
      using DCtxDone np f by (simp add: defs)
    moreover have "outline (s'\<lparr>dispatcher := None, jobChanClosed := True\<rparr>) = outline s1"
      using DCtxDone f by (intro outline_eqI) simp_all
    ultimately show ?thesis by blast
  next
    case DEnd
    have "step e' a s' = Some (s'\<lparr>dispatcher := None, jobChanClosed := True\<rparr>)"
      using DEnd np f by (simp add: defs)
    moreover have "outline (s'\<lparr>dispatcher := None, jobChanClosed := True\<rparr>) = outline s1"
      using DEnd f by (intro outline_eqI) simp_all
    ultimately show ?thesis by blast
  next
    case (GetClientFail i err)
    note w = blank_workerD(1) [OF wk [OF GetClientFail(2)] GetClientFail(3)]
    have "step e' a s' = Some (set_worker i (WDrain err) s')"
      using GetClientFail np f len w g by (simp add: defs)
    moreover have "outline (set_worker i (WDrain err) s') = outline s1"
      using GetClientFail f by (intro outline_eqI) (simp_all add: set_worker_def map_update)
    ultimately show ?thesis by blast
  next
    case (GetClientOk i)
    note w = blank_workerD(1) [OF wk [OF GetClientOk(2)] GetClientOk(3)]
    have "step e' a s' = Some (set_worker i WSelect s')"
      using GetClientOk np f len w g by (simp add: defs)
    moreover have "outline (set_worker i WSelect s') = outline s1"
      using GetClientOk f by (intro outline_eqI) (simp_all add: set_worker_def map_update)
    ultimately show ?thesis by blast
  next
    case (DrainRecv i err j js)
    note w = blank_workerD(2) [OF wk [OF DrainRecv(2)] DrainRecv(3)]
    have "step e' a s'
        = Some (set_worker i (WDrainSend err (setupFailure i err j)) (s'\<lparr>jobChan := js\<rparr>))"
      using DrainRecv np f len w by (simp add: defs)
    moreover have "outline (set_worker i (WDrainSend err (setupFailure i err j))
        (s'\<lparr>jobChan := js\<rparr>)) = outline s1"
      using DrainRecv f by (intro outline_eqI) (simp_all add: set_worker_def map_update)
    ultimately show ?thesis by blast
  next
    case (DrainEnd i err)
    note w = blank_workerD(2) [OF wk [OF DrainEnd(2)] DrainEnd(3)]
    have "step e' a s' = Some (set_worker i WExit s')"
      using DrainEnd np f len w by (simp add: defs)
    moreover have "outline (set_worker i WExit s') = outline s1"
      using DrainEnd f by (intro outline_eqI) (simp_all add: set_worker_def map_update)
    ultimately show ?thesis by blast
  next
    case (Recv i j js)
    note w = blank_workerD(3) [OF wk [OF Recv(2)] Recv(3)]
    have "step e' a s' = Some (set_worker i (WGenerate j) (s'\<lparr>jobChan := js\<rparr>))"
      using Recv np f len w by (simp add: defs)
    moreover have "outline (set_worker i (WGenerate j) (s'\<lparr>jobChan := js\<rparr>)) = outline s1"
      using Recv f by (intro outline_eqI) (simp_all add: set_worker_def map_update)
    ultimately show ?thesis by blast
  next
    case (RecvEnd i)
    note w = blank_workerD(3) [OF wk [OF RecvEnd(2)] RecvEnd(3)]
    have "step e' a s' = Some (set_worker i WExit s')"
      using RecvEnd np f len w by (simp add: defs)
    moreover have "outline (set_worker i WExit s') = outline s1"
      using RecvEnd f by (intro outline_eqI) (simp_all add: set_worker_def map_update)
    ultimately show ?thesis by blast
  next
    case (SelectDone i)
    note w = blank_workerD(3) [OF wk [OF SelectDone(2)] SelectDone(3)]
    have "step e' a s' = Some (set_worker i WExit s')"
      using SelectDone np f len w by (simp add: defs)
    moreover have "outline (set_worker i WExit s') = outline s1"
      using SelectDone f by (intro outline_eqI) (simp_all add: set_worker_def map_update)
    ultimately show ?thesis by blast
  next
    case (SendDone i r)
    from blank_workerD(7) [OF wk [OF SendDone(2)] SendDone(3)]
    obtain r' where w: "workers s' ! i = WSend r'" by blast
    have "step e' a s' = Some (set_worker i WExit s')"
      using SendDone np f len w by (simp add: defs)
    moreover have "outline (set_worker i WExit s') = outline s1"
      using SendDone f by (intro outline_eqI) (simp_all add: set_worker_def map_update)
    ultimately show ?thesis by blast
  next
    case (Generate i d j)
    note w = blank_workerD(4) [OF wk [OF Generate(2)] Generate(3)]
    have "step e' a s' = Some (set_worker i (WSend (generated e' (ctxErr s') i d j)) s')"
      using Generate np f len w by (simp add: defs)
    moreover have "outline (set_worker i (WSend (generated e' (ctxErr s') i d j)) s')
        = outline s1"
      using Generate f blank_generated [of e' "ctxErr s" i d j e]
      by (intro outline_eqI) (simp_all add: set_worker_def map_update)
    ultimately show ?thesis by blast
  next
    case (DrainSend i err r)
    from blank_workerD(6) [OF wk [OF DrainSend(2)] DrainSend(3)]
    obtain r' where w: "workers s' ! i = WDrainSend err r'" and b: "blank r' = blank r"
      by blast
    have l: "length (resultChan s') = length (resultChan s)"
      using f(10) by (rule map_eq_imp_length_eq)
    have "step e' a s'
        = Some (set_worker i (WDrain err) (s'\<lparr>resultChan := resultChan s' @ [r']\<rparr>))"
      using DrainSend np f len w l by (simp add: defs)
    moreover have "outline (set_worker i (WDrain err) (s'\<lparr>resultChan := resultChan s' @ [r']\<rparr>))
        = outline s1"
      using DrainSend f b by (intro outline_eqI) (simp_all add: set_worker_def map_update)
    ultimately show ?thesis by blast
  next
    case (Send i r)
    from blank_workerD(7) [OF wk [OF Send(2)] Send(3)]
    obtain r' where w: "workers s' ! i = WSend r'" and b: "blank r' = blank r"
      by blast
    have l: "length (resultChan s') = length (resultChan s)"
      using f(10) by (rule map_eq_imp_length_eq)
    have "step e' a s'
        = Some (set_worker i WSelect (s'\<lparr>resultChan := resultChan s' @ [r']\<rparr>))"
      using Send np f len w l by (simp add: defs)
    moreover have "outline (set_worker i WSelect (s'\<lparr>resultChan := resultChan s' @ [r']\<rparr>))
        = outline s1"
      using Send f b by (intro outline_eqI) (simp_all add: set_worker_def map_update)
    ultimately show ?thesis by blast
  next
    case (SendPanic i)
    have "in_hand (blank_worker (workers s' ! i)) \<noteq> []"
      using wk [OF SendPanic(2)] SendPanic(4) by (simp add: in_hand_blank_worker)
    then have ne: "in_hand (workers s' ! i) \<noteq> []" by (simp add: in_hand_blank_worker)
    have "step e' a s' = Some (s'\<lparr>panicked := True\<rparr>)"
      using SendPanic np f len ne
      by (cases "workers s' ! i") (simp_all add: defs)
    moreover have "outline (s'\<lparr>panicked := True\<rparr>) = outline s1"
      using SendPanic f by (intro outline_eqI) simp_all
    ultimately show ?thesis by blast
  next
    case Closer
    have "step e' a s' = Some (s'\<lparr>resultChanClosed := True, closer := False\<rparr>)"
      using Closer np f ex by (simp add: defs)
    moreover have "outline (s'\<lparr>resultChanClosed := True, closer := False\<rparr>) = outline s1"
      using Closer f by (intro outline_eqI) simp_all
    ultimately show ?thesis by blast
  next
    case (Collect r rs)
    from f(10) Collect(3) obtain r' rs' where rc: "resultChan s' = r' # rs'"
      and b: "blank r' = blank r" and bs: "map blank rs' = map blank rs"
      by (auto simp: Cons_eq_map_conv)
    have "step e' a s' = Some (s'\<lparr>resultChan := rs', results := results s' @ [r'],
        proc := (proc s')\<lparr>stats := record_result r' (stats (proc s'))\<rparr>\<rparr>)"
      using Collect np f rc by (simp add: defs)
    moreover have "outline (s'\<lparr>resultChan := rs', results := results s' @ [r'],
        proc := (proc s')\<lparr>stats := record_result r' (stats (proc s'))\<rparr>\<rparr>) = outline s1"
      using Collect f b bs by (intro outline_eqI) simp_all
    ultimately show ?thesis by blast
  next
    case (Finalize now)
    have rc: "resultChan s' = []" using f(10) Finalize(3) by simp
    have "step e' a s' = Some (s'\<lparr>proc := (proc s')\<lparr>stats := finalize_stats now (stats (proc s'))\<rparr>,
        mainPC := MFinalized\<rparr>)"
      using Finalize np f rc by (simp add: defs)
    moreover have "outline (s'\<lparr>proc := (proc s')\<lparr>stats := finalize_stats now (stats (proc s'))\<rparr>,
        mainPC := MFinalized\<rparr>) = outline s1"
      using Finalize f by (intro outline_eqI) simp_all
    ultimately show ?thesis by blast
  next
    case Return
    have "step e' a s' = Some (s'\<lparr>mainPC := MReturned (ctxErr s')\<rparr>)"
      using Return np f by (simp add: defs)
    moreover have "outline (s'\<lparr>mainPC := MReturned (ctxErr s')\<rparr>) = outline s1"
      using Return f by (intro outline_eqI) simp_all
    ultimately show ?thesis by blast
  qed
qed

lemma exec_outline:
  "exec e sched s = Some s1 \<Longrightarrow> getClient e' = getClient e \<Longrightarrow> outline s' = outline s
   \<Longrightarrow> \<exists>s1'. exec e' sched s' = Some s1' \<and> outline s1' = outline s1"
proof (induction sched arbitrary: s s')
  case Nil
  then show ?case by simp
next
  case (Cons a as)
  from Cons.prems(1) obtain s2 where st: "step e a s = Some s2" and ex: "exec e as s2 = Some s1"
    by (auto split: option.splits)
  from step_outline [OF st Cons.prems(2,3)]
  obtain s2' where st': "step e' a s' = Some s2'" and o: "outline s2' = outline s2" by blast
  from Cons.IH [OF ex Cons.prems(2) o] st' show ?case by simp
qed

lemma blank_eqD:
  assumes "blank r' = blank r"
  shows "Job r' = Job r" and "Worker r' = Worker r" and "Duration r' = Duration r"
proof -
  have f: "g (blank r') = g (blank r)" for g :: "BatchResult \<Rightarrow> 'a" using assms by simp
  show "Job r' = Job r" using f [of Job] by (simp add: blank_def)
  show "Worker r' = Worker r" using f [of Worker] by (simp add: blank_def)
  show "Duration r' = Duration r" using f [of Duration] by (simp add: blank_def)
qed

text \<open>
  C6. A run that is never cancelled returns its results; then the generator is changed
  (the factory is not), in what it says for any prompts. The same schedule runs under
  the changed generator as well and returns as many results, which name the same jobs and
  workers in the same order; and every job for whose own prompt the generator says what it
  said before has the same response and the same error as before.
\<close>

theorem generator_failure_isolation:
  assumes "never_cancelled ctx sched"
    and "ProcessJobs e bp ctx jobs now sched = Some (rs, err)"
    and "getClient e' = getClient e"
  shows "\<exists>rs'. ProcessJobs e' bp ctx jobs now sched = Some (rs', err)
    \<and> length rs' = length rs
    \<and> (\<forall>k<length rs.
          Job (rs' ! k) = Job (rs ! k) \<and> Worker (rs' ! k) = Worker (rs ! k)
        \<and> Duration (rs' ! k) = Duration (rs ! k)
        \<and> (generate e' None (Prompt (Job (rs ! k))) = generate e None (Prompt (Job (rs ! k)))
             \<longrightarrow> Response (rs' ! k) = Response (rs ! k) \<and> Error (rs' ! k) = Error (rs ! k)))"
proof -
  from assms(2) obtain s where run: "reaches e bp ctx jobs now sched s"
    and fin: "mainPC s = MReturned err" and rs: "results s = rs"
    by (rule ProcessJobs_SomeD)
  from exec_outline [OF run [unfolded reaches_def] assms(3) refl]
  obtain s' where ex': "exec e' sched (ProcessJobs_start bp ctx jobs now) = Some s'"
    and o: "outline s' = outline s" by blast
  note f = outline_fields [OF o]
  have ret': "ProcessJobs e' bp ctx jobs now sched = Some (results s', err)"
    using ex' f(8) fin by (simp add: ProcessJobs_def)
  have bl: "map blank (results s') = map blank rs" using f(12) rs by simp
  then have len: "length (results s') = length rs" by (rule map_eq_imp_length_eq)
  have each: "Job (results s' ! k) = Job (rs ! k) \<and> Worker (results s' ! k) = Worker (rs ! k)
        \<and> Duration (results s' ! k) = Duration (rs ! k)
        \<and> (generate e' None (Prompt (Job (rs ! k))) = generate e None (Prompt (Job (rs ! k)))
             \<longrightarrow> Response (results s' ! k) = Response (rs ! k)
               \<and> Error (results s' ! k) = Error (rs ! k))"
    if k: "k < length rs" for k
  proof -
    have "blank (results s' ! k) = blank (rs ! k)"
      using arg_cong [OF bl, of "\<lambda>xs. xs ! k"] k len by simp
    note b = blank_eqD [OF this]
    have same: "Response (rs ! k) = Response (results s' ! k)
        \<and> Error (rs ! k) = Error (results s' ! k)"
      if gen: "generate e' None (Prompt (Job (rs ! k))) = generate e None (Prompt (Job (rs ! k)))"
    proof -
      have m: "rs ! k \<in> set rs" and m': "results s' ! k \<in> set (results s')"
        using k len by simp_all
      have j: "Job (rs ! k) = Job (results s' ! k)" using b(1) by simp
      have c: "getClient e (config bp) (worker_index (rs ! k))
          = getClient e' (config bp) (worker_index (results s' ! k))"
        using b(2) assms(3) by (simp add: worker_index_def)
      have gn: "generate e None (Prompt (Job (rs ! k))) = generate e' None (Prompt (Job (rs ! k)))"
        using gen by simp
      from same_job_same_result [OF assms(1,2) assms(1) ret' m m' j c gn]
      show ?thesis by simp
    qed
    with b show ?thesis by simp
  qed
  from ret' len each show ?thesis by blast
qed

theorem generator_failure_isolation_witness:
  "ProcessJobs demo_env (NewBatchProcessor demo_config 0) None demo_jobs 10 demo_sched
     = Some (demo_results, None)
   \<and> ProcessJobs demo_env_nofail (NewBatchProcessor demo_config 0) None demo_jobs 10 demo_sched
     = Some (demo_results_nofail, None)
   \<and> getClient demo_env_nofail = getClient demo_env
   \<and> Error (demo_results_nofail ! 1) \<noteq> Error (demo_results ! 1)
   \<and> Response (demo_results_nofail ! 0) = Response (demo_results ! 0)
   \<and> Error (demo_results_nofail ! 0) = Error (demo_results ! 0)"
proof -
  have g: "getClient demo_env_nofail = getClient demo_env"
    by (simp add: demo_env_def demo_env_nofail_def)
  show ?thesis
    using generator_failure_isolation [OF demo_never_cancelled demo_run g] demo_run
      demo_run_nofail g
    by (simp add: demo_results_def demo_results_nofail_def)
qed

subsection \<open>Cardinality\<close>

text \<open>
  C1. A processor made by NewBatchProcessor, whatever worker count was asked for and
  however it has been used since, runs ProcessJobs on a non-empty job list under a
  context that is never cancelled. Whatever the schedule, the factory and the generator
  do (Generate is taken to return), when the call has returned, its results hold each
  submitted job exactly once: the jobs of the results are the submitted jobs as a
  multiset, and there are as many results as jobs. And the call does return: no schedule
  is longer than the bound the start state gives, and as long as the call has not
  returned some goroutine can move.
\<close>

theorem ProcessJobs_one_result_per_job:
  assumes "lifecycle (NewBatchProcessor cfg wc) calls = Some bp"
    and "jobs \<noteq> []"
    and "never_cancelled ctx sched"
    and "reaches e bp ctx jobs now sched s"
  shows "(\<forall>rs err. ProcessJobs e bp ctx jobs now sched = Some (rs, err) \<longrightarrow>
           mset (map Job rs) = mset jobs \<and> length rs = length jobs)
    \<and> length sched \<le> fuel (ProcessJobs_start bp ctx jobs now)
    \<and> ((\<forall>x. mainPC s \<noteq> MReturned x) \<longrightarrow> (\<exists>a s'. \<not> is_cancel a \<and> step e a s = Some s'))"
proof -
  have W: "0 < workerCount bp"
    using lifecycle_workerCount [OF assms(1)] by (simp add: NewBatchProcessor_workerCount)
  have live: "ctxErr s = None" using assms(3,4) by (rule never_cancelled_ctxErr)
  have complete: "mset (map Job rs) = mset jobs \<and> length rs = length jobs"
    if ret: "ProcessJobs e bp ctx jobs now sched = Some (rs, err)" for rs err
  proof -
    from ret assms(4) have fin: "mainPC s = MReturned err" and rs: "results s = rs"
      by (auto simp: ProcessJobs_def reaches_def split: mainpc.splits)
    have "mset (map Job (results s)) = mset jobs"
      using assms(2) W assms(4) _ live by (rule collected_all) (simp add: fin)
    then have m: "mset (map Job rs) = mset jobs" by (simp add: rs)
    then have "length (map Job rs) = length jobs" by (rule mset_eq_length)
    with m show ?thesis by simp
  qed
  have bounded: "length sched \<le> fuel (ProcessJobs_start bp ctx jobs now)"
    using exec_fuel [OF assms(4) [unfolded reaches_def]] by simp
  have moves: "\<exists>a s'. \<not> is_cancel a \<and> step e a s = Some s'"
    if "\<forall>x. mainPC s \<noteq> MReturned x"
  proof -
    have "run_inv s" using assms(2,4) by (rule reaches_run_inv)
    moreover have "accounted s \<subseteq># mset jobs" using reaches_accounted [OF assms(4)] by simp
    moreover have "chanCap s = length jobs" using reaches_frame [OF assms(4)] by simp
    ultimately show ?thesis using that by (rule run_can_move)
  qed
  from complete bounded moves show ?thesis by blast
qed

theorem ProcessJobs_one_result_per_job_witness:
  "ProcessJobs demo_env (NewBatchProcessor demo_config 0) None demo_jobs 10 demo_sched
     = Some (demo_results, None)
   \<and> mset (map Job demo_results) = mset demo_jobs
   \<and> length demo_results = length demo_jobs
   \<and> length demo_sched \<le> fuel (ProcessJobs_start (NewBatchProcessor demo_config 0) None demo_jobs 10)"
proof -
  have l: "lifecycle (NewBatchProcessor demo_config 0) [] = Some (NewBatchProcessor demo_config 0)"
    by simp
  have r: "reaches demo_env (NewBatchProcessor demo_config 0) None demo_jobs 10 demo_sched
     demo_final_state"
    unfolding reaches_def by (rule demo_exec)
  show ?thesis
    using ProcessJobs_one_result_per_job [OF l demo_jobs_nonempty demo_never_cancelled r]
      demo_run by simp
qed

subsection \<open>The call returns, with the error of the context\<close>

lemma exec_append:
  "exec e (xs @ ys) s = (case exec e xs s of None \<Rightarrow> None | Some s' \<Rightarrow> exec e ys s')"
  by (induction xs arbitrary: s) (auto split: option.splits)

lemma step_cancel_ctxErr:
  "step e a s = Some s' \<Longrightarrow> is_cancel a \<Longrightarrow> ctxErr s' \<noteq> None"
  by (cases a) (auto simp: step_def ctx_cancel_def split: if_splits)

lemma exec_ctxErr_None:
  "exec e sched s0 = Some s
   \<Longrightarrow> (ctxErr s = None) = (ctxErr s0 = None \<and> \<not> list_ex is_cancel sched)"
proof (induction sched arbitrary: s0)
  case Nil
  then show ?case by simp
next
  case (Cons a as)
  from Cons.prems obtain s1 where st: "step e a s0 = Some s1" and ex: "exec e as s1 = Some s"
    by (auto split: option.splits)
  from Cons.IH [OF ex] step_ctxErr [OF st] step_cancel_ctxErr [OF st]
  show ?case by auto
qed

lemma exec_keeps_ctxErr:
  "exec e sched s0 = Some s \<Longrightarrow> \<not> list_ex is_cancel sched \<Longrightarrow> ctxErr s = ctxErr s0"
proof (induction sched arbitrary: s0)
  case Nil
  then show ?case by simp
next
  case (Cons a as)
  from Cons.prems(1) obtain s1 where st: "step e a s0 = Some s1" and ex: "exec e as s1 = Some s"
    by (auto split: option.splits)
  from Cons.IH [OF ex] Cons.prems(2) step_ctxErr [OF st]
  show ?case by auto
qed

lemma run_returns:
  assumes "run_inv s" and "accounted s \<subseteq># mset jobs" and "chanCap s = length jobs"
  shows "\<exists>more s'. \<not> list_ex is_cancel more \<and> exec e more s = Some s'
           \<and> (\<exists>x. mainPC s' = MReturned x)"
  using assms
proof (induction "fuel s" arbitrary: s rule: less_induct)
  case less
  show ?case
  proof (cases "\<exists>x. mainPC s = MReturned x")
    case True
    then have "\<not> list_ex is_cancel [] \<and> exec e [] s = Some s \<and> (\<exists>x. mainPC s = MReturned x)"
      by simp
    then show ?thesis by blast
  next
    case False
    then have "\<forall>x. mainPC s \<noteq> MReturned x" by simp
    from run_can_move [OF less.prems this]
    obtain a s1 where a: "\<not> is_cancel a" and st: "step e a s = Some s1" by blast
    have f: "fuel s1 < fuel s" using st by (rule step_fuel)
    have i: "run_inv s1" using st less.prems(1) by (rule step_run_inv)
    have "accounted s1 \<subseteq># accounted s" using step_accounted [OF st] by simp
    then have ac: "accounted s1 \<subseteq># mset jobs"
      using less.prems(2) by (rule subset_mset.order_trans)
    have c: "chanCap s1 = length jobs" using step_frame [OF st] less.prems(3) by simp
    from less.hyps [OF f i ac c]
    obtain more s' where m: "\<not> list_ex is_cancel more" and ex: "exec e more s1 = Some s'"
      and r: "\<exists>x. mainPC s' = MReturned x" by blast
    from a m st ex r
    have "\<not> list_ex is_cancel (a # more) \<and> exec e (a # more) s = Some s'
      \<and> (\<exists>x. mainPC s' = MReturned x)" by simp
    then show ?thesis by blast
  qed
qed

lemma demo_cancelled_exec:
  "exec demo_env demo_sched_cancelled
     (ProcessJobs_start (NewBatchProcessor demo_config 0) None demo_jobs 10)
   = Some demo_cancelled_state"
  by (simp add: run_defs demo_env_def demo_generate_def demo_jobs_def demo_config_def
      NewBatchProcessor_def createJobsFromPrompts_def job_id_0 job_id_1
      demo_sched_cancelled_def demo_cancelled_state_def demo_cancelled_results_def)

lemma demo_expired_exec:
  "exec demo_env demo_sched_expired
     (ProcessJobs_start (NewBatchProcessor demo_config 0) (Some DeadlineExceeded) demo_jobs 10)
   = Some demo_expired_state"
  by (simp add: run_defs demo_env_def demo_generate_def demo_jobs_def demo_config_def
      NewBatchProcessor_def createJobsFromPrompts_def job_id_0 job_id_1
      demo_sched_expired_def demo_expired_state_def)

lemma demo_finalized_exec:
  "exec demo_env (butlast demo_sched_cancelled)
     (ProcessJobs_start (NewBatchProcessor demo_config 0) None demo_jobs 10)
   = Some (demo_cancelled_state\<lparr>mainPC := MFinalized\<rparr>)"
  by (simp add: run_defs demo_env_def demo_generate_def demo_jobs_def demo_config_def
      NewBatchProcessor_def createJobsFromPrompts_def job_id_0 job_id_1
      demo_sched_cancelled_def demo_cancelled_state_def demo_cancelled_results_def)

text \<open>
  C4, as the code has it: for a non-empty job list. The call returns, and the error it
  returns is the context's error as it is at the return statement. At every moment of a
  run, cancelled or not: the schedule is no longer than the bound the start state gives;
  as long as the call has not returned some goroutine can move; once the statistics are
  finalised the return statement can run, whatever the context's error is, and returns
  that error; and the schedule can be continued, with no further cancellation, to one
  after which the call has returned, with the error the context has now when the call
  had not returned yet. When the call has returned, the schedule splits at a Return move,
  made in a state whose context error is the error returned and whose results are the
  results returned, and the error is nil exactly when the context was not cancelled
  before that move. So it is nil in a run that is never cancelled, whatever errors the
  results carry, and it is the context's error when the context was already done at the
  call. There are never more results than jobs. (With an empty job list the error is nil
  for every context.)
\<close>

theorem run_error_is_context_error:
  assumes "jobs \<noteq> []"
    and "reaches e bp ctx jobs now sched s"
  shows "length sched \<le> fuel (ProcessJobs_start bp ctx jobs now)
    \<and> ((\<forall>x. mainPC s \<noteq> MReturned x) \<longrightarrow> (\<exists>a s'. \<not> is_cancel a \<and> step e a s = Some s'))
    \<and> (mainPC s = MFinalized \<longrightarrow>
          step e Return s = Some (s\<lparr>mainPC := MReturned (ctxErr s)\<rparr>))
    \<and> (\<exists>more rs err. \<not> list_ex is_cancel more
          \<and> ProcessJobs e bp ctx jobs now (sched @ more) = Some (rs, err)
          \<and> ((\<forall>x. mainPC s \<noteq> MReturned x) \<longrightarrow> err = ctxErr s))
    \<and> (\<forall>rs err. ProcessJobs e bp ctx jobs now sched = Some (rs, err) \<longrightarrow>
          (\<exists>before after s1. sched = before @ Return # after
              \<and> reaches e bp ctx jobs now before s1 \<and> err = ctxErr s1 \<and> rs = results s1
              \<and> (err = None \<longleftrightarrow> never_cancelled ctx before))
          \<and> (never_cancelled ctx sched \<longrightarrow> err = None)
          \<and> (ctx \<noteq> None \<longrightarrow> err = ctx)
          \<and> length rs \<le> length jobs)"
proof -
  let ?s0 = "ProcessJobs_start bp ctx jobs now"
  have ex: "exec e sched ?s0 = Some s" using assms(2) by (simp add: reaches_def)
  have c0: "ctxErr ?s0 = ctx" using assms(1) by (simp add: ProcessJobs_start_def)
  have inv: "run_inv s" using assms by (rule reaches_run_inv)
  have acc: "accounted s \<subseteq># mset jobs" using reaches_accounted [OF assms(2)] by simp
  have cap: "chanCap s = length jobs" using reaches_frame [OF assms(2)] by simp
  have bounded: "length sched \<le> fuel ?s0" using exec_fuel [OF ex] by simp
  have moves: "(\<forall>x. mainPC s \<noteq> MReturned x) \<longrightarrow> (\<exists>a s'. \<not> is_cancel a \<and> step e a s = Some s')"
  proof
    assume "\<forall>x. mainPC s \<noteq> MReturned x"
    with inv acc cap show "\<exists>a s'. \<not> is_cancel a \<and> step e a s = Some s'" by (rule run_can_move)
  qed
  have np: "\<not> panicked s" using inv by (simp add: run_inv_def)
  have ret: "mainPC s = MFinalized \<longrightarrow>
          step e Return s = Some (s\<lparr>mainPC := MReturned (ctxErr s)\<rparr>)"
    using np by (simp add: step_def return_results_def)
  have returns: "\<exists>more rs err. \<not> list_ex is_cancel more
          \<and> ProcessJobs e bp ctx jobs now (sched @ more) = Some (rs, err)
          \<and> ((\<forall>x. mainPC s \<noteq> MReturned x) \<longrightarrow> err = ctxErr s)"
  proof -
    from run_returns [OF inv acc cap, of e]
    obtain more s' y where m: "\<not> list_ex is_cancel more" and ex': "exec e more s = Some s'"
      and r: "mainPC s' = MReturned y" by blast
    have "exec e (sched @ more) ?s0 = Some s'" using ex ex' by (simp add: exec_append)
    then have P: "ProcessJobs e bp ctx jobs now (sched @ more) = Some (results s', y)"
      using r by (simp add: ProcessJobs_def)
    have Y: "(\<forall>x. mainPC s \<noteq> MReturned x) \<longrightarrow> y = ctxErr s"
    proof
      assume run: "\<forall>x. mainPC s \<noteq> MReturned x"
      then have "mainPC s = MCollect \<or> mainPC s = MFinalized"
        by (cases "mainPC s") simp_all
      from returned_at_Return [OF ex' this r]
      obtain before after s1 where sp: "more = before @ Return # after"
        and b: "exec e before s = Some s1" and y: "y = ctxErr s1" by blast
      from m sp have "\<not> list_ex is_cancel before" by simp
      from exec_keeps_ctxErr [OF b this] y show "y = ctxErr s" by simp
    qed
    from m P Y have "\<not> list_ex is_cancel more
          \<and> ProcessJobs e bp ctx jobs now (sched @ more) = Some (results s', y)
          \<and> ((\<forall>x. mainPC s \<noteq> MReturned x) \<longrightarrow> y = ctxErr s)" by (intro conjI)
    then show ?thesis by (intro exI)
  qed
  have at_return: "(\<exists>before after s1. sched = before @ Return # after
              \<and> reaches e bp ctx jobs now before s1 \<and> err = ctxErr s1 \<and> rs = results s1
              \<and> (err = None \<longleftrightarrow> never_cancelled ctx before))
          \<and> (never_cancelled ctx sched \<longrightarrow> err = None)
          \<and> (ctx \<noteq> None \<longrightarrow> err = ctx)
          \<and> length rs \<le> length jobs"
    if P: "ProcessJobs e bp ctx jobs now sched = Some (rs, err)" for rs err
  proof -
    from P ex have fin: "mainPC s = MReturned err" and rs: "results s = rs"
      by (auto simp: ProcessJobs_def split: mainpc.splits)
    have start: "mainPC ?s0 = MCollect \<or> mainPC ?s0 = MFinalized"
      using assms(1) by (simp add: ProcessJobs_start_def)
    from returned_at_Return [OF ex start fin]
    obtain before after s1 where split: "sched = before @ Return # after"
      and b: "exec e before ?s0 = Some s1"
      and e1: "err = ctxErr s1" and r1: "results s = results s1" by blast
    have iff: "err = None \<longleftrightarrow> never_cancelled ctx before"
      using exec_ctxErr_None [OF b] by (simp add: never_cancelled_def e1 c0)
    have rb: "reaches e bp ctx jobs now before s1" using b by (simp add: reaches_def)
    have rs1: "rs = results s1" using r1 rs by simp
    from split rb e1 rs1 iff
    have "sched = before @ Return # after
              \<and> reaches e bp ctx jobs now before s1 \<and> err = ctxErr s1 \<and> rs = results s1
              \<and> (err = None \<longleftrightarrow> never_cancelled ctx before)" by (intro conjI)
    then have first: "\<exists>before after s1. sched = before @ Return # after
              \<and> reaches e bp ctx jobs now before s1 \<and> err = ctxErr s1 \<and> rs = results s1
              \<and> (err = None \<longleftrightarrow> never_cancelled ctx before)" by (intro exI)
    have nc: "never_cancelled ctx sched \<longrightarrow> err = None"
    proof
      assume "never_cancelled ctx sched"
      with split have "never_cancelled ctx before" by (simp add: never_cancelled_def)
      with iff show "err = None" by simp
    qed
    have dn: "ctx \<noteq> None \<longrightarrow> err = ctx"
    proof
      assume "ctx \<noteq> None"
      then obtain x where x: "ctx = Some x" by auto
      then have "ctxErr ?s0 = Some x" using c0 by simp
      from exec_ctx_done [OF b this] e1 x show "err = ctx" by simp
    qed
    have len: "length rs \<le> length jobs" using reaches_results_bound [OF assms(2)] rs by simp
    from first nc dn len show ?thesis by (intro conjI)
  qed
  have last: "\<forall>rs err. ProcessJobs e bp ctx jobs now sched = Some (rs, err) \<longrightarrow>
          (\<exists>before after s1. sched = before @ Return # after
              \<and> reaches e bp ctx jobs now before s1 \<and> err = ctxErr s1 \<and> rs = results s1
              \<and> (err = None \<longleftrightarrow> never_cancelled ctx before))
          \<and> (never_cancelled ctx sched \<longrightarrow> err = None)
          \<and> (ctx \<noteq> None \<longrightarrow> err = ctx)
          \<and> length rs \<le> length jobs"
  proof (intro allI impI)
    fix rs err
    assume "ProcessJobs e bp ctx jobs now sched = Some (rs, err)"
    then show "(\<exists>before after s1. sched = before @ Return # after
              \<and> reaches e bp ctx jobs now before s1 \<and> err = ctxErr s1 \<and> rs = results s1
              \<and> (err = None \<longleftrightarrow> never_cancelled ctx before))
          \<and> (never_cancelled ctx sched \<longrightarrow> err = None)
          \<and> (ctx \<noteq> None \<longrightarrow> err = ctx)
          \<and> length rs \<le> length jobs" by (rule at_return)
  qed
  from bounded moves ret returns last show ?thesis by (intro conjI)
qed

theorem run_error_is_context_error_witness:
  "ProcessJobs demo_env (NewBatchProcessor demo_config 0) None demo_jobs 10 demo_sched
     = Some (demo_results, None)
   \<and> Error (demo_results ! 1) = Some (ErrorString ''mock error'')
   \<and> never_cancelled None demo_sched
   \<and> length demo_results \<le> length demo_jobs
   \<and> ProcessJobs demo_env (NewBatchProcessor demo_config 0) None demo_jobs 10
       demo_sched_cancelled
     = Some (demo_cancelled_results, Some ContextCanceled)
   \<and> Error (demo_cancelled_results ! 0) = None
   \<and> \<not> never_cancelled None demo_sched_cancelled
   \<and> length demo_cancelled_results \<le> length demo_jobs
   \<and> length demo_sched_cancelled
       \<le> fuel (ProcessJobs_start (NewBatchProcessor demo_config 0) None demo_jobs 10)
   \<and> reaches demo_env (NewBatchProcessor demo_config 0) None demo_jobs 10
       (butlast demo_sched_cancelled) (demo_cancelled_state\<lparr>mainPC := MFinalized\<rparr>)
   \<and> ctxErr (demo_cancelled_state\<lparr>mainPC := MFinalized\<rparr>) = Some ContextCanceled
   \<and> step demo_env Return (demo_cancelled_state\<lparr>mainPC := MFinalized\<rparr>)
     = Some demo_cancelled_state
   \<and> ProcessJobs demo_env (NewBatchProcessor demo_config 0) (Some DeadlineExceeded) demo_jobs
       10 demo_sched_expired
     = Some ([], Some DeadlineExceeded)"
proof -
  let ?bp = "NewBatchProcessor demo_config 0"
  let ?fin = "demo_cancelled_state\<lparr>mainPC := MFinalized\<rparr>"
  have r1: "reaches demo_env ?bp None demo_jobs 10 demo_sched demo_final_state"
    unfolding reaches_def by (rule demo_exec)
  have r2: "reaches demo_env ?bp None demo_jobs 10 demo_sched_cancelled demo_cancelled_state"
    unfolding reaches_def by (rule demo_cancelled_exec)
  have r3: "reaches demo_env ?bp None demo_jobs 10 (butlast demo_sched_cancelled) ?fin"
    unfolding reaches_def by (rule demo_finalized_exec)
  have r4: "reaches demo_env ?bp (Some DeadlineExceeded) demo_jobs 10 demo_sched_expired
      demo_expired_state"
    unfolding reaches_def by (rule demo_expired_exec)
  note t1 = run_error_is_context_error [OF demo_jobs_nonempty r1]
  note t2 = run_error_is_context_error [OF demo_jobs_nonempty r2]
  note t3 = run_error_is_context_error [OF demo_jobs_nonempty r3]
  note t4 = run_error_is_context_error [OF demo_jobs_nonempty r4]
  have p2: "ProcessJobs demo_env ?bp None demo_jobs 10 demo_sched_cancelled
     = Some (demo_cancelled_results, Some ContextCanceled)"
    by (simp add: ProcessJobs_def demo_cancelled_exec demo_cancelled_state_def)
  have p4: "ProcessJobs demo_env ?bp (Some DeadlineExceeded) demo_jobs 10 demo_sched_expired
     = Some ([], Some DeadlineExceeded)"
    by (simp add: ProcessJobs_def demo_expired_exec demo_expired_state_def)
  have e1: "Error (demo_results ! 1) = Some (ErrorString ''mock error'')"
    by (simp add: demo_results_def)
  have e2: "Error (demo_cancelled_results ! 0) = None"
    by (simp add: demo_cancelled_results_def)
  have c2: "\<not> never_cancelled None demo_sched_cancelled"
    by (simp add: never_cancelled_def demo_sched_cancelled_def)
  note a1 = t1 [THEN conjunct2, THEN conjunct2, THEN conjunct2, THEN conjunct2, rule_format,
      OF demo_run]
  note a2 = t2 [THEN conjunct2, THEN conjunct2, THEN conjunct2, THEN conjunct2, rule_format,
      OF p2]
  note a4 = t4 [THEN conjunct2, THEN conjunct2, THEN conjunct2, THEN conjunct2, rule_format,
      OF p4]
  have l1: "length demo_results \<le> length demo_jobs"
    using a1 by simp
  have l2: "length demo_cancelled_results \<le> length demo_jobs"
    using a2 by simp
  have f2: "length demo_sched_cancelled \<le> fuel (ProcessJobs_start ?bp None demo_jobs 10)"
    using t2 by (rule conjunct1)
  have m3: "mainPC ?fin = MFinalized" by simp
  have x3: "ctxErr ?fin = Some ContextCanceled" by (simp add: demo_cancelled_state_def)
  have u3: "?fin\<lparr>mainPC := MReturned (ctxErr ?fin)\<rparr> = demo_cancelled_state"
    by (simp add: demo_cancelled_state_def)
  have s3: "step demo_env Return ?fin = Some demo_cancelled_state"
    using t3 [THEN conjunct2, THEN conjunct2, THEN conjunct1, THEN mp, OF m3] u3 by simp
  have q4: "ProcessJobs demo_env ?bp (Some DeadlineExceeded) demo_jobs 10 demo_sched_expired
     = Some ([], Some DeadlineExceeded)"
    using a4 p4 by simp
  from demo_run e1 demo_never_cancelled l1 p2 e2 c2 l2 f2 r3 x3 s3 q4
  show ?thesis by (intro conjI)
qed

text \<open>
  Not so without jobs: with an empty job list and a context whose deadline has passed,
  the error returned is nil.
\<close>

theorem run_error_empty_counterexample:
  "ProcessJobs demo_env (NewBatchProcessor demo_config 3) (Some DeadlineExceeded) [] 10 []
     = Some ([], None)
   \<and> (None :: go_error option) \<noteq> Some DeadlineExceeded"
  by (simp add: ProcessJobs_def ProcessJobs_start_def)

end
